theory Spec2Isabelle
  imports Main "HOL-Library.Word" "HOL-Library.Char_ord" "HOL-Library.List_Lexorder"
begin

unbundle bit_operations_syntax

section \<open>Byte stream output: \<open>FixedSizeBufStream\<close> (encode\_binast.ts)\<close>

type_synonym byte = "8 word"

text \<open>
  Every failure of the source is a thrown \<open>Error\<close> or a failed assertion; the
  constructors name them by what the message says.
\<close>

datatype error =
    AssertionError
  | Truncated
  | Overflow
  | NotYetImplemented
  | DecoderTooOld nat
  | TypeError
  | MissingSymbol string
  | NotTypedNode
  | ShallowObjectCompare
  | InconsistentShape string "string list" "string list"
  | UnsupportedPrimitive
  | Unreachable
  | SyntaxError

definition FIXED_SIZE :: nat where
  "FIXED_SIZE = 0x10000"

record FixedSizeBufStream =
  priors :: "byte list list"
  priorSize :: nat
  cur :: "byte list"
  curOffset :: nat

definition resetCurrent :: "FixedSizeBufStream \<Rightarrow> FixedSizeBufStream" where
  "resetCurrent s = s\<lparr>cur := replicate FIXED_SIZE 0, curOffset := 0\<rparr>"

definition new_FixedSizeBufStream :: FixedSizeBufStream where
  "new_FixedSizeBufStream =
     resetCurrent \<lparr>priors = [], priorSize = 0, cur = [], curOffset = 0\<rparr>"

definition stream_size :: "FixedSizeBufStream \<Rightarrow> nat" where
  "stream_size s = priorSize s + curOffset s"

text \<open>Storing a number into a \<open>Uint8Array\<close> element keeps the integer modulo 256.\<close>

definition ToUint8 :: "int \<Rightarrow> byte" where
  "ToUint8 b = word_of_int b"

text \<open>
  \<open>writeByte\<close>: the three assertions of the source are commented out, so nothing is
  checked. A store past the end of a typed array is ignored, as \<open>xs[i := v]\<close> is.
\<close>

definition writeByte :: "int \<Rightarrow> FixedSizeBufStream \<Rightarrow> nat \<times> FixedSizeBufStream" where
  "writeByte b s =
     (let idx = curOffset s;
          s1 = s\<lparr>curOffset := idx + 1\<rparr>;
          s2 = s1\<lparr>cur := (cur s1)[idx := ToUint8 b]\<rparr>
      in if curOffset s2 = length (cur s2)
         then (1, resetCurrent (s2\<lparr>priors := priors s2 @ [cur s2],
                                   priorSize := priorSize s2 + length (cur s2)\<rparr>))
         else (1, s2))"

fun writeArray_loop :: "int list \<Rightarrow> FixedSizeBufStream \<Rightarrow> FixedSizeBufStream" where
  "writeArray_loop [] s = s"
| "writeArray_loop (b # bs) s = writeArray_loop bs (snd (writeByte b s))"

definition writeArray :: "int list \<Rightarrow> FixedSizeBufStream \<Rightarrow> nat \<times> FixedSizeBufStream" where
  "writeArray bs s = (length bs, writeArray_loop bs s)"

definition writeUint8Array :: "byte list \<Rightarrow> FixedSizeBufStream \<Rightarrow> nat \<times> FixedSizeBufStream" where
  "writeUint8Array bs s = (length bs, writeArray_loop (map uint bs) s)"

text \<open>What \<open>copyToWritable\<close> hands to the sink: the full chunks, then the used part of
  the current one.\<close>

definition copyToWritable :: "FixedSizeBufStream \<Rightarrow> byte list" where
  "copyToWritable s =
     concat (priors s) @ (if curOffset s \<noteq> 0 then take (curOffset s) (cur s) else [])"

text \<open>The invariant of every stream the constructor and \<open>writeByte\<close> produce.\<close>

definition stream_inv :: "FixedSizeBufStream \<Rightarrow> bool" where
  "stream_inv s \<longleftrightarrow>
     length (cur s) = FIXED_SIZE \<and> curOffset s < FIXED_SIZE \<and>
     priorSize s = length (concat (priors s))"

section \<open>\<open>EncodingWriter\<close>: variable-length integers and doubles\<close>

text \<open>JavaScript's bitwise operators work on the 32-bit two's-complement image of a number.\<close>

definition ToInt32 :: "int \<Rightarrow> int" where
  "ToInt32 x = signed_take_bit 31 x"

definition js_and :: "int \<Rightarrow> int \<Rightarrow> int" where
  "js_and a b = ToInt32 a AND ToInt32 b"

definition js_or :: "int \<Rightarrow> int \<Rightarrow> int" where
  "js_or a b = ToInt32 a OR ToInt32 b"

definition js_sar :: "int \<Rightarrow> nat \<Rightarrow> int" where
  "js_sar a k = drop_bit (k mod 32) (ToInt32 a)"

text \<open>
  The \<open>do ... while (uval)\<close> loop of \<open>writeVarUint\<close>. It does not return when the
  32-bit image of \<open>uval\<close> is negative (the sign-propagating shift ends in \<open>-1\<close>), so it is
  a partial function: \<open>None\<close> stands for not returning.
\<close>

partial_function (option) writeVarUint_loop ::
  "int \<Rightarrow> nat \<Rightarrow> FixedSizeBufStream \<Rightarrow> (nat \<times> FixedSizeBufStream) option" where
  "writeVarUint_loop uval n s =
     (let byte = js_and uval 0x7f;
          uval' = js_sar uval 7;
          byte' = js_or byte (if uval' \<noteq> 0 then 0x80 else 0);
          r = writeByte byte' s;
          n' = n + fst r
      in if uval' \<noteq> 0 then writeVarUint_loop uval' n' (snd r) else Some (n', snd r))"

definition writeVarUint ::
  "int \<Rightarrow> FixedSizeBufStream \<Rightarrow> (error + nat \<times> FixedSizeBufStream) option" where
  "writeVarUint uval s =
     (if \<not> 0 \<le> uval then Some (Inl AssertionError)
      else map_option Inr (writeVarUint_loop uval 0 s))"

text \<open>
  What a caller sees of one \<open>writeVarUint\<close> on a fresh stream: the returned count and
  the bytes written, or \<open>None\<close> when the call fails or does not return.
\<close>

definition encode_varuint :: "int \<Rightarrow> (nat \<times> byte list) option" where
  "encode_varuint v =
     (case writeVarUint v new_FixedSizeBufStream of
        Some (Inr (n, s)) \<Rightarrow> Some (n, copyToWritable s)
      | _ \<Rightarrow> None)"

text \<open>
  Modelled from the spec: \<open>ReadStream.readVarUint\<close> (io.ts is not among the sources).
  The reader takes 7-bit groups, least significant first, while the high bit is set; it
  fails with \<open>Truncated\<close> when the stream ends inside a number and with \<open>Overflow\<close>
  when more than ten bytes arrive.
\<close>

fun readVarUint_loop :: "nat \<Rightarrow> nat \<Rightarrow> byte list \<Rightarrow> error + nat \<times> byte list" where
  "readVarUint_loop k acc [] = Inl Truncated"
| "readVarUint_loop k acc (b # bs) =
     (if 10 \<le> k then Inl Overflow
      else let acc' = acc + unat (b AND 0x7f) * 2 ^ (7 * k)
           in if b AND 0x80 \<noteq> 0 then readVarUint_loop (Suc k) acc' bs
              else Inr (acc', bs))"

definition readVarUint :: "byte list \<Rightarrow> error + nat \<times> byte list" where
  "readVarUint bs = readVarUint_loop 0 0 bs"

text \<open>The number of binary digits of a natural number, and the 7-bit groups of the
  variable-length format as the specification describes them.\<close>

fun bitlen :: "nat \<Rightarrow> nat" where
  "bitlen n = (if n = 0 then 0 else Suc (bitlen (n div 2)))"

fun varuint_groups :: "nat \<Rightarrow> byte list" where
  "varuint_groups v =
     (if v < 128 then [of_nat v]
      else of_nat (v mod 128 + 128) # varuint_groups (v div 128))"

text \<open>
  A \<open>double\<close> is an IEEE-754 bit pattern. A JavaScript number is \<open>NaN\<close>, which
  carries no payload a program can rely on, or a number \<open>Num w\<close> with the pattern
  \<open>w\<close>, which is not the pattern of a NaN; the two zeros are different numbers.
\<close>

type_synonym double = "64 word"

definition is_NaN :: "double \<Rightarrow> bool" where
  "is_NaN d \<longleftrightarrow> take_bit 11 (drop_bit 52 d) = 0x7ff \<and> take_bit 52 d \<noteq> 0"

datatype number = NaN | Num double

text \<open>
  Storing a number into a \<open>Float64Array\<close> stores its pattern; for \<open>NaN\<close> the engine
  stores a NaN pattern of its own choice, which is the first argument here. Reading an
  element whose pattern is a NaN gives \<open>NaN\<close>.
\<close>

definition stored_bits :: "double \<Rightarrow> number \<Rightarrow> double" where
  "stored_bits nan f = (case f of NaN \<Rightarrow> nan | Num w \<Rightarrow> w)"

definition number_of_bits :: "double \<Rightarrow> number" where
  "number_of_bits w = (if is_NaN w then NaN else Num w)"

text \<open>The bytes of the buffer of a \<open>Float64Array\<close> element (little-endian host).\<close>

definition float_bytes :: "double \<Rightarrow> byte list" where
  "float_bytes f =
     [ucast f, ucast (drop_bit 8 f), ucast (drop_bit 16 f), ucast (drop_bit 24 f),
      ucast (drop_bit 32 f), ucast (drop_bit 40 f), ucast (drop_bit 48 f),
      ucast (drop_bit 56 f)]"

text \<open>\<open>writeFloat\<close>; \<open>nan\<close> is the pattern the engine stores for a NaN in this call.\<close>

definition writeFloat ::
    "double \<Rightarrow> number \<Rightarrow> FixedSizeBufStream \<Rightarrow> error + nat \<times> FixedSizeBufStream" where
  "writeFloat nan f s =
     (let intBuf = float_bytes (stored_bits nan f);
          r = writeArray [uint (intBuf ! 0), uint (intBuf ! 1), uint (intBuf ! 2),
                          uint (intBuf ! 3), uint (intBuf ! 4), uint (intBuf ! 5),
                          uint (intBuf ! 6), uint (intBuf ! 7)] s
      in if fst r \<noteq> 8 then Inl AssertionError else Inr (8, snd r))"

text \<open>
  Modelled from the spec: \<open>ReadStream.readBytes\<close> (io.ts is not among the sources)
  hands out the next \<open>n\<close> bytes as an array of their own and fails with
  \<open>Truncated\<close> when fewer remain.
\<close>

definition readBytes :: "nat \<Rightarrow> byte list \<Rightarrow> error + byte list \<times> byte list" where
  "readBytes n bs = (if length bs < n then Inl Truncated else Inr (take n bs, drop n bs))"

text \<open>The pattern whose buffer holds the given bytes, least significant first.\<close>

fun float_of_bytes :: "byte list \<Rightarrow> double" where
  "float_of_bytes [] = 0"
| "float_of_bytes (b # bs) = ucast b OR push_bit 8 (float_of_bytes bs)"

definition decodeFloat :: "byte list \<Rightarrow> error + number \<times> byte list" where
  "decodeFloat bs =
     (case readBytes 8 bs of
        Inl e \<Rightarrow> Inl e
      | Inr (buf, rest) \<Rightarrow> Inr (number_of_bits (float_of_bytes (take 8 buf)), rest))"

text \<open>What \<open>writeFloat\<close> returns and puts on a fresh stream.\<close>

definition encode_float :: "double \<Rightarrow> number \<Rightarrow> error + nat \<times> byte list" where
  "encode_float nan f =
     (case writeFloat nan f new_FixedSizeBufStream of
        Inl e \<Rightarrow> Inl e
      | Inr (n, s) \<Rightarrow> Inr (n, copyToWritable s))"

section \<open>Abstract syntax trees and the grammar recoverer (grammar.ts)\<close>

text \<open>
  The values an AST is made of. An object is its constructor's name and its own
  properties in creation order (property names are distinct); \<open>VSymbol\<close> is a symbol
  and \<open>VBigInt\<close> a big integer, the primitive values of none of the classes the codec
  supports. Strings are lists of character codes, compared code by code as JavaScript
  compares strings.
\<close>

datatype jsvalue =
    VNull
  | VUndefined
  | VBool bool
  | VNum number
  | VStr string
  | VSymbol
  | VBigInt int
  | VList "jsvalue list"
  | VObj string "(string \<times> jsvalue) list"

text \<open>Reading a property: an absent one reads as \<open>undefined\<close>.\<close>

definition get_prop :: "(string \<times> jsvalue) list \<Rightarrow> string \<Rightarrow> jsvalue" where
  "get_prop flds name = (case map_of flds name of Some v \<Rightarrow> v | None \<Rightarrow> VUndefined)"

text \<open>
  The rules of a grammar: node kind to property names, in insertion order.
  \<open>rules_get\<close> is the lookup of a kind among them.
\<close>

type_synonym rules = "(string \<times> string list) list"

definition rules_get :: "rules \<Rightarrow> string \<Rightarrow> string list option" where
  "rules_get r kind = map_of r kind"

text \<open>
  The recoverer keeps its rules in a \<open>Map\<close> object, and it reads and writes them as
  properties of that object: \<open>this.rules[kind]\<close>. Such a read finds the property the
  recoverer has stored under the name, else the member of that name the object inherits
  from \<open>Map.prototype\<close> and \<open>Object.prototype\<close>, else nothing. The inherited members
  are functions and, for \<open>__proto__\<close>, an object; the one exception is \<open>size\<close>, an
  accessor without a setter, which reads as the number of entries of the map: 0, since
  the recoverer never calls \<open>set\<close>.
\<close>

datatype member = Absent | Props "string list" | Inherited | Size

definition inherited_names :: "string list" where
  "inherited_names =
     [''constructor'', ''get'', ''set'', ''has'', ''delete'', ''clear'', ''entries'',
      ''forEach'', ''keys'', ''values'', ''hasOwnProperty'', ''isPrototypeOf'',
      ''propertyIsEnumerable'', ''toString'', ''toLocaleString'', ''valueOf'',
      ''__defineGetter__'', ''__defineSetter__'', ''__lookupGetter__'',
      ''__lookupSetter__'', ''__proto__'']"

definition rules_member :: "rules \<Rightarrow> string \<Rightarrow> member" where
  "rules_member r kind =
     (case map_of r kind of
        Some props \<Rightarrow> Props props
      | None \<Rightarrow> if kind \<in> set inherited_names then Inherited
                else if kind = ''size'' then Size
                else Absent)"

text \<open>A kind is ordinary when the rules object inherits no member of that name.\<close>

definition ordinary :: "string \<Rightarrow> bool" where
  "ordinary kind \<longleftrightarrow> kind \<notin> set inherited_names \<and> kind \<noteq> ''size''"

fun rules_set :: "rules \<Rightarrow> string \<Rightarrow> string list \<Rightarrow> rules" where
  "rules_set [] kind props = [(kind, props)]"
| "rules_set ((k, v) # r) kind props =
     (if k = kind then (k, props) # r else (k, v) # rules_set r kind props)"

text \<open>\<open>shallowEquals\<close> on two arrays of strings.\<close>

definition shallowEquals :: "string list \<Rightarrow> string list \<Rightarrow> bool" where
  "shallowEquals xs ys \<longleftrightarrow>
     length xs = length ys \<and> (\<forall>i < length xs. xs ! i = ys ! i)"

text \<open>
  The own properties of a node without \<open>type\<close>, sorted by name: the names are
  \<open>props\<close> of the source and the values are what \<open>node[prop]\<close> reads for each.
\<close>

definition own_props :: "(string \<times> jsvalue) list \<Rightarrow> (string \<times> jsvalue) list" where
  "own_props flds = sort_key fst (filter (\<lambda>p. fst p \<noteq> ''type'') flds)"

text \<open>
  \<open>JSON.stringify\<close> throws a \<open>TypeError\<close> on a value that holds a big integer.
\<close>

function (sequential) stringify_throws :: "jsvalue \<Rightarrow> bool" where
  "stringify_throws (VBigInt n) = True"
| "stringify_throws (VList xs) = (\<exists>x \<in> set xs. stringify_throws x)"
| "stringify_throws (VObj kind flds) = (\<exists>p \<in> set flds. stringify_throws (snd p))"
| "stringify_throws _ = False"
  by pat_completeness auto
termination
proof -
  have mem: "\<And>(p::string \<times> jsvalue) flds. p \<in> set flds \<Longrightarrow>
      size (snd p) < Suc (size_list (size_prod (\<lambda>x. 0) size) flds)"
    subgoal for p flds by (induction flds) auto
    done
  have elem: "\<And>(x::jsvalue) xs. x \<in> set xs \<Longrightarrow> size x < Suc (size_list size xs)"
    subgoal for x xs by (induction xs) auto
    done
  show ?thesis
    by (relation "measure size") (auto simp: mem elem)
qed

text \<open>
  \<open>visit\<close>. A node whose constructor has no name fails while the message is made,
  with a \<open>TypeError\<close> when \<open>JSON.stringify\<close> throws. What \<open>this.rules[kind]\<close> reads
  decides the rest: an inherited member is truthy and no array, so \<open>shallowEquals\<close>
  throws; \<open>size\<close> reads as 0, and the assignment to an accessor without a setter
  throws a \<open>TypeError\<close> (module code is strict). A symbol fails with a \<open>TypeError\<close>
  too: the message of the error for an unsupported primitive cannot be made from it.
\<close>

function (sequential) visit :: "rules \<Rightarrow> jsvalue \<Rightarrow> error + rules"
  and visit_each :: "rules \<Rightarrow> jsvalue list \<Rightarrow> error + rules" where
  "visit r (VList xs) = visit_each r xs"
| "visit r (VObj kind flds) =
     (if kind = [] then
        (if stringify_throws (VObj kind flds) then Inl TypeError else Inl NotTypedNode)
      else let props = map fst (own_props flds)
           in case rules_member r kind of
                Props expected \<Rightarrow>
                  if \<not> shallowEquals props expected
                  then Inl (InconsistentShape kind expected props)
                  else visit_each (rules_set r kind props) (map snd (own_props flds))
              | Inherited \<Rightarrow> Inl ShallowObjectCompare
              | Size \<Rightarrow> Inl TypeError
              | Absent \<Rightarrow> visit_each (rules_set r kind props) (map snd (own_props flds)))"
| "visit r VSymbol = Inl TypeError"
| "visit r (VBigInt n) = Inl UnsupportedPrimitive"
| "visit r _ = Inr r"
| "visit_each r [] = Inr r"
| "visit_each r (x # xs) =
     (case visit r x of Inl e \<Rightarrow> Inl e | Inr r' \<Rightarrow> visit_each r' xs)"
  by pat_completeness auto
termination
proof -
  have ins: "\<And>(h::string \<times> jsvalue \<Rightarrow> nat) x xs.
      size_list h (insort_key fst x xs) = size_list h (x # xs)"
    subgoal for h x xs by (induction xs) auto
    done
  have srt: "\<And>(h::string \<times> jsvalue \<Rightarrow> nat) xs. size_list h (sort_key fst xs) = size_list h xs"
    subgoal for h xs by (induction xs) (auto simp: ins)
    done
  have flt: "\<And>(h::string \<times> jsvalue \<Rightarrow> nat) P xs. size_list h (filter P xs) \<le> size_list h xs"
    subgoal for h P xs by (induction xs) auto
    done
  have mono: "\<And>xs::(string \<times> jsvalue) list.
      size_list (size \<circ> snd) xs \<le> size_list (size_prod (\<lambda>x. 0) size) xs"
    subgoal for xs by (induction xs) auto
    done
  have sz: "\<And>flds. size_list (size \<circ> snd) (own_props flds)
      < Suc (size_list (size_prod (\<lambda>x. 0) size) flds)"
    subgoal for flds
      using flt [of "size \<circ> snd" "\<lambda>p. fst p \<noteq> ''type''" flds] mono [of flds]
      by (simp add: own_props_def srt)
    done
  show ?thesis
    by (relation "measure (\<lambda>x. case x of Inl (r, v) \<Rightarrow> size v
                                          | Inr (r, vs) \<Rightarrow> size_list size vs)")
       (auto simp: sz)
qed

text \<open>The values a visit of \<open>v\<close> reaches: everything except what hangs under a
  \<open>type\<close> property.\<close>

inductive reaches :: "jsvalue \<Rightarrow> jsvalue \<Rightarrow> bool" where
  reaches_self: "reaches v v"
| reaches_elem: "x \<in> set xs \<Longrightarrow> reaches x w \<Longrightarrow> reaches (VList xs) w"
| reaches_prop: "(name, x) \<in> set flds \<Longrightarrow> name \<noteq> ''type'' \<Longrightarrow> reaches x w \<Longrightarrow>
                 reaches (VObj kind flds) w"

text \<open>The shape of a node as the specification words it: its own property names
  without \<open>type\<close>, sorted.\<close>

definition shape :: "(string \<times> jsvalue) list \<Rightarrow> string list" where
  "shape flds = sort (filter (\<lambda>name. name \<noteq> ''type'') (map fst flds))"

text \<open>The errors a value stands for when a visit reaches it.\<close>

fun failure_at :: "jsvalue \<Rightarrow> error \<Rightarrow> bool" where
  "failure_at (VBigInt n) e = (e = UnsupportedPrimitive)"
| "failure_at VSymbol e = (e = TypeError)"
| "failure_at (VObj kind flds) e =
     (case e of
        TypeError \<Rightarrow> kind = [] \<or> kind = ''size''
      | NotTypedNode \<Rightarrow> kind = []
      | ShallowObjectCompare \<Rightarrow> kind \<in> set inherited_names
      | InconsistentShape k expected actual \<Rightarrow>
          k = kind \<and> actual = shape flds \<and> expected \<noteq> actual
      | _ \<Rightarrow> False)"
| "failure_at _ e = False"

section \<open>Ranked trees and the TreeRePair applicator (encode\_binast.ts)\<close>

text \<open>
  Modelled from the spec: the symbols and nodes of treerepair.ts, which is not among the
  sources. A symbol is a terminal with a rank, a nonterminal with an identity, a rank and
  its formal parameters, or a parameter. Symbols are objects compared by identity: a
  terminal is named here by what the applicator created it for, a nonterminal and a
  parameter by a number.
\<close>

datatype terminal =
    T_true | T_false | T_null | T_undefined | T_cons | T_nil
  | T_kind string
  | T_string string
  | T_number number

datatype symbol =
    Terminal terminal nat
  | Nonterminal nat nat "nat list"
  | Parameter nat

fun rank :: "symbol \<Rightarrow> nat" where
  "rank (Terminal t r) = r"
| "rank (Nonterminal i r ps) = r"
| "rank (Parameter i) = 0"

fun formals :: "symbol \<Rightarrow> symbol list" where
  "formals (Nonterminal i r ps) = map Parameter ps"
| "formals _ = []"

datatype node = Node symbol "node list"

text \<open>Modelled from the spec: \<open>tr.pre_order\<close> yields a node, then its children's
  subtrees from left to right; only the labels are used.\<close>

fun pre_order :: "node \<Rightarrow> symbol list" where
  "pre_order (Node l cs) = l # concat (map pre_order cs)"

definition t_true :: symbol where "t_true = Terminal T_true 0"
definition t_false :: symbol where "t_false = Terminal T_false 0"
definition t_null :: symbol where "t_null = Terminal T_null 0"
definition t_undefined :: symbol where "t_undefined = Terminal T_undefined 0"
definition t_cons :: symbol where "t_cons = Terminal T_cons 2"
definition t_nil :: symbol where "t_nil = Terminal T_nil 0"

text \<open>
  The applicator's tables. A \<open>Map\<close> keeps its entries in insertion order; an entry of
  \<open>t_numbers\<close> and \<open>t_strings\<close> is the key, the use count and the terminal.
\<close>

record TreeRePairApplicator =
  grammar :: rules
  t_kind :: "(string \<times> symbol) list"
  t_numbers :: "(number \<times> nat \<times> symbol) list"
  t_strings :: "(string \<times> nat \<times> symbol) list"

definition new_TreeRePairApplicator :: "rules \<Rightarrow> TreeRePairApplicator" where
  "new_TreeRePairApplicator g =
     \<lparr>grammar = g,
      t_kind = map (\<lambda>(rule, props). (rule, Terminal (T_kind rule) (length props))) g,
      t_numbers = [],
      t_strings = []\<rparr>"

definition str :: "string \<Rightarrow> TreeRePairApplicator \<Rightarrow> symbol \<times> TreeRePairApplicator" where
  "str s a =
     (case map_of (t_strings a) s of
        None \<Rightarrow>
          (let t = Terminal (T_string s) 0
           in (t, a\<lparr>t_strings := t_strings a @ [(s, 1, t)]\<rparr>))
      | Some (c, t) \<Rightarrow>
          (t, a\<lparr>t_strings :=
                   map (\<lambda>(k, c', t'). if k = s then (k, c' + 1, t') else (k, c', t'))
                       (t_strings a)\<rparr>))"

text \<open>
  A \<open>Map\<close> compares number keys with SameValueZero: \<open>NaN\<close> equals \<open>NaN\<close>,
  and the two zeros are equal. \<open>Map.prototype.set\<close> stores the key \<open>-0\<close> as \<open>+0\<close>.
\<close>

definition is_zero :: "number \<Rightarrow> bool" where
  "is_zero n \<longleftrightarrow> n = Num 0 \<or> n = Num 0x8000000000000000"

definition same_value_zero :: "number \<Rightarrow> number \<Rightarrow> bool" where
  "same_value_zero x y \<longleftrightarrow> x = y \<or> (is_zero x \<and> is_zero y)"

definition map_key :: "number \<Rightarrow> number" where
  "map_key d = (if d = Num 0x8000000000000000 then Num 0 else d)"

definition num :: "number \<Rightarrow> TreeRePairApplicator \<Rightarrow> symbol \<times> TreeRePairApplicator" where
  "num n a =
     (case find (\<lambda>(k, c, t). same_value_zero k n) (t_numbers a) of
        None \<Rightarrow>
          (let t = Terminal (T_number (map_key n)) 0
           in (t, a\<lparr>t_numbers := t_numbers a @ [(map_key n, 1, t)]\<rparr>))
      | Some (k, c, t) \<Rightarrow>
          (t, a\<lparr>t_numbers :=
                   map (\<lambda>(k', c', t'). if same_value_zero k' n then (k', c' + 1, t')
                                        else (k', c', t'))
                       (t_numbers a)\<rparr>))"

text \<open>
  \<open>build\<close> translates an AST value into a ranked tree. The loop over an array runs
  from the last element to the first, so \<open>build_elems\<close> builds the tail before the
  head; \<open>build_props\<close> is the loop over the property names of the node's grammar rule.
  A value of no supported class reaches the last branch, where its constructor's name
  (\<open>Symbol\<close>, \<open>BigInt\<close>) is looked up and each of its properties reads as
  \<open>undefined\<close>.
\<close>

function (sequential) build :: "TreeRePairApplicator \<Rightarrow> jsvalue \<Rightarrow> error + node \<times> TreeRePairApplicator"
  and build_elems ::
    "TreeRePairApplicator \<Rightarrow> jsvalue list \<Rightarrow> error + node \<times> TreeRePairApplicator"
  and build_props ::
    "TreeRePairApplicator \<Rightarrow> (string \<times> jsvalue) list \<Rightarrow> string list \<Rightarrow>
       error + node list \<times> TreeRePairApplicator" where
  "build a (VBool True) = Inr (Node t_true [], a)"
| "build a (VBool False) = Inr (Node t_false [], a)"
| "build a VNull = Inr (Node t_null [], a)"
| "build a VUndefined = Inr (Node t_undefined [], a)"
| "build a (VStr s) = (case str s a of (t, a') \<Rightarrow> Inr (Node t [], a'))"
| "build a (VNum n) = (case num n a of (t, a') \<Rightarrow> Inr (Node t [], a'))"
| "build a (VList xs) = build_elems a xs"
| "build a (VObj kind flds) =
     (case map_of (t_kind a) kind of
        None \<Rightarrow> Inl (MissingSymbol kind)
      | Some kind_symbol \<Rightarrow>
          (case rules_get (grammar a) kind of
             None \<Rightarrow> Inl TypeError
           | Some props \<Rightarrow>
               (case build_props a flds props of
                  Inl e \<Rightarrow> Inl e
                | Inr (cs, a') \<Rightarrow> Inr (Node kind_symbol cs, a'))))"
| "build a VSymbol =
     (case map_of (t_kind a) ''Symbol'' of
        None \<Rightarrow> Inl (MissingSymbol ''Symbol'')
      | Some kind_symbol \<Rightarrow>
          (case rules_get (grammar a) ''Symbol'' of
             None \<Rightarrow> Inl TypeError
           | Some props \<Rightarrow> Inr (Node kind_symbol (map (\<lambda>p. Node t_undefined []) props), a)))"
| "build a (VBigInt n) =
     (case map_of (t_kind a) ''BigInt'' of
        None \<Rightarrow> Inl (MissingSymbol ''BigInt'')
      | Some kind_symbol \<Rightarrow>
          (case rules_get (grammar a) ''BigInt'' of
             None \<Rightarrow> Inl TypeError
           | Some props \<Rightarrow> Inr (Node kind_symbol (map (\<lambda>p. Node t_undefined []) props), a)))"
| "build_elems a [] = Inr (Node t_nil [], a)"
| "build_elems a (x # xs) =
     (case build_elems a xs of
        Inl e \<Rightarrow> Inl e
      | Inr (result, a1) \<Rightarrow>
          (case build a1 x of
             Inl e \<Rightarrow> Inl e
           | Inr (c, a2) \<Rightarrow> Inr (Node t_cons [c, result], a2)))"
| "build_props a flds [] = Inr ([], a)"
| "build_props a flds (p # ps) =
     (case build a (get_prop flds p) of
        Inl e \<Rightarrow> Inl e
      | Inr (c, a1) \<Rightarrow>
          (case build_props a1 flds ps of
             Inl e \<Rightarrow> Inl e
           | Inr (cs, a2) \<Rightarrow> Inr (c # cs, a2)))"
  by pat_completeness auto
termination
proof -
  have gp: "\<And>flds p. size (get_prop flds p) \<le> size_list (size_prod (\<lambda>x. 0) size) flds"
    subgoal for flds p
      by (induction flds) (auto simp: get_prop_def)
    done
  have lt: "\<And>flds p. 2 * size (get_prop flds p)
               < Suc (2 * size_list (size_prod (\<lambda>x. 0) size) flds)"
    subgoal for flds p using gp [of flds p] by simp
    done
  show ?thesis
    by (relation "inv_image (less_than <*lex*> less_than)
          (\<lambda>x. case x of
                  Inl (a, v) \<Rightarrow> (2 * size v, 0)
                | Inr (Inl (a, xs)) \<Rightarrow> (2 * size_list size xs + 1, 0)
                | Inr (Inr (a, flds, ps)) \<Rightarrow>
                    (2 * size_list (size_prod (\<lambda>x. 0) size) flds + 1, length ps))")
       (auto simp: lt)
qed

section \<open>The TreeRePair decoder\<close>

text \<open>
  The functions of the platform the codec calls: \<open>TextEncoder.encode\<close>, the UTF-8
  decoding inside \<open>readUtf8Bytes\<close>, \<open>JSON.stringify\<close> on a grammar object and
  \<open>JSON.parse\<close> (\<open>None\<close>: a syntax error), and the pattern the engine stores into a
  \<open>Float64Array\<close> for a NaN. They are parameters of the model.
\<close>

record host =
  utf8_encode :: "string \<Rightarrow> byte list"
  utf8_decode :: "byte list \<Rightarrow> string"
  json_stringify :: "rules \<Rightarrow> string"
  json_parse :: "string \<Rightarrow> rules option"
  nan_bits :: double

text \<open>Modelled from the spec: \<open>ReadStream.readUtf8Bytes\<close> (io.ts) takes \<open>n\<close> bytes
  and decodes them as UTF-8.\<close>

definition readUtf8Bytes :: "host \<Rightarrow> nat \<Rightarrow> byte list \<Rightarrow> error + string \<times> byte list" where
  "readUtf8Bytes h n bs =
     (case readBytes n bs of
        Inl e \<Rightarrow> Inl e
      | Inr (b, rest) \<Rightarrow> Inr (utf8_decode h b, rest))"

text \<open>Modelled from the spec: \<open>Grammar.nodeType\<close> gives the kind at an index of the
  grammar, in insertion order. It is called with an index below the number of rules.\<close>

definition nodeType :: "rules \<Rightarrow> nat \<Rightarrow> string" where
  "nodeType g i = fst (g ! i)"

text \<open>Modelled from the spec: the host's AST constructor for a kind, given the property
  map, makes a node of that kind with those properties.\<close>

definition new_S :: "string \<Rightarrow> (string \<times> jsvalue) list \<Rightarrow> jsvalue" where
  "new_S kind params = VObj kind params"

text \<open>The constants \<open>decodeAbstractSyntax\<close> computes from the header. Tags are
  JavaScript numbers, so the differences below are integers.\<close>

record tables =
  num_parameters :: int
  num_built_in_tags :: int
  ranks :: "int list"
  rank_offset :: "int list"
  dgrammar :: rules
  string_constants :: "string list"
  numeric_constants :: "number list"
  meta_rules :: "int list list"

definition first_built_in_tag :: "tables \<Rightarrow> int" where
  "first_built_in_tag T = num_parameters T"

definition tag_nil :: "tables \<Rightarrow> int" where "tag_nil T = first_built_in_tag T + 0"
definition tag_null :: "tables \<Rightarrow> int" where "tag_null T = first_built_in_tag T + 1"
definition tag_cons :: "tables \<Rightarrow> int" where "tag_cons T = first_built_in_tag T + 2"
definition tag_false :: "tables \<Rightarrow> int" where "tag_false T = first_built_in_tag T + 3"
definition tag_true :: "tables \<Rightarrow> int" where "tag_true T = first_built_in_tag T + 4"
definition tag_undefined :: "tables \<Rightarrow> int" where "tag_undefined T = first_built_in_tag T + 5"

definition first_meta_rule :: "tables \<Rightarrow> int" where
  "first_meta_rule T = first_built_in_tag T + num_built_in_tags T"

definition num_ranks :: "tables \<Rightarrow> nat" where
  "num_ranks T = length (ranks T)"

definition num_meta_rules :: "tables \<Rightarrow> int" where
  "num_meta_rules T = rank_offset T ! num_ranks T"

definition last_meta_rule :: "tables \<Rightarrow> int" where
  "last_meta_rule T = first_meta_rule T + num_meta_rules T - 1"

definition first_grammar_rule :: "tables \<Rightarrow> int" where
  "first_grammar_rule T = first_meta_rule T + num_meta_rules T"

definition num_grammar_rules :: "tables \<Rightarrow> int" where
  "num_grammar_rules T = int (length (dgrammar T))"

definition last_grammar_rule :: "tables \<Rightarrow> int" where
  "last_grammar_rule T = first_grammar_rule T + num_grammar_rules T - 1"

definition first_string_constant :: "tables \<Rightarrow> int" where
  "first_string_constant T = first_grammar_rule T + num_grammar_rules T"

definition num_string_constants :: "tables \<Rightarrow> int" where
  "num_string_constants T = int (length (string_constants T))"

definition last_string_constant :: "tables \<Rightarrow> int" where
  "last_string_constant T = first_string_constant T + num_string_constants T - 1"

definition first_numeric_constant :: "tables \<Rightarrow> int" where
  "first_numeric_constant T = first_string_constant T + num_string_constants T"

definition num_numeric_constants :: "tables \<Rightarrow> int" where
  "num_numeric_constants T = int (length (numeric_constants T))"

definition last_numeric_constant :: "tables \<Rightarrow> int" where
  "last_numeric_constant T = first_numeric_constant T + num_numeric_constants T - 1"

text \<open>\<open>meta_rank\<close>: the rank of the bucket that holds meta-rule \<open>i\<close>.\<close>

definition meta_rank :: "tables \<Rightarrow> int \<Rightarrow> error + int" where
  "meta_rank T i =
     (if \<not> (0 \<le> i \<and> i < num_meta_rules T) then Inl AssertionError
      else case find (\<lambda>j. i < rank_offset T ! (j + 1)) [0..<num_ranks T] of
             Some j \<Rightarrow> Inr (ranks T ! j)
           | None \<Rightarrow> Inl AssertionError)"

text \<open>The loop that reads the rank histogram after its first count.\<close>

fun read_ranks ::
  "nat \<Rightarrow> int list \<Rightarrow> int list \<Rightarrow> byte list \<Rightarrow> error + int list \<times> int list \<times> byte list" where
  "read_ranks 0 rs offs bs = Inr (rs, offs, bs)"
| "read_ranks (Suc n) rs offs bs =
     (case readVarUint bs of
        Inl e \<Rightarrow> Inl e
      | Inr (d, bs1) \<Rightarrow>
          (case readVarUint bs1 of
             Inl e \<Rightarrow> Inl e
           | Inr (c, bs2) \<Rightarrow>
               read_ranks n (rs @ [last rs + int d + 1]) (offs @ [last offs + int c]) bs2))"

fun read_lengths :: "nat \<Rightarrow> byte list \<Rightarrow> error + nat list \<times> byte list" where
  "read_lengths 0 bs = Inr ([], bs)"
| "read_lengths (Suc n) bs =
     (case readVarUint bs of
        Inl e \<Rightarrow> Inl e
      | Inr (l, bs1) \<Rightarrow>
          (case read_lengths n bs1 of
             Inl e \<Rightarrow> Inl e
           | Inr (ls, bs2) \<Rightarrow> Inr (l # ls, bs2)))"

fun read_strings :: "host \<Rightarrow> nat list \<Rightarrow> byte list \<Rightarrow> error + string list \<times> byte list" where
  "read_strings h [] bs = Inr ([], bs)"
| "read_strings h (l # ls) bs =
     (case readUtf8Bytes h l bs of
        Inl e \<Rightarrow> Inl e
      | Inr (s, bs1) \<Rightarrow>
          (case read_strings h ls bs1 of
             Inl e \<Rightarrow> Inl e
           | Inr (ss, bs2) \<Rightarrow> Inr (s # ss, bs2)))"

fun read_floats :: "nat \<Rightarrow> byte list \<Rightarrow> error + number list \<times> byte list" where
  "read_floats 0 bs = Inr ([], bs)"
| "read_floats (Suc n) bs =
     (case decodeFloat bs of
        Inl e \<Rightarrow> Inl e
      | Inr (x, bs1) \<Rightarrow>
          (case read_floats n bs1 of
             Inl e \<Rightarrow> Inl e
           | Inr (xs, bs2) \<Rightarrow> Inr (x # xs, bs2)))"

text \<open>
  \<open>buffer_tree\<close> reads \<open>n\<close> trees into the buffer. The recursion follows the stream;
  the first argument bounds its depth, and \<open>None\<close> says the bound was too small.
\<close>

fun buffer_tree ::
  "nat \<Rightarrow> tables \<Rightarrow> nat \<Rightarrow> int list \<Rightarrow> byte list \<Rightarrow> (error + int list \<times> byte list) option" where
  "buffer_tree 0 T n buffer bs = None"
| "buffer_tree (Suc fuel) T 0 buffer bs = Some (Inr (buffer, bs))"
| "buffer_tree (Suc fuel) T (Suc n) buffer bs =
     (case readVarUint bs of
        Inl e \<Rightarrow> Some (Inl e)
      | Inr (t, bs1) \<Rightarrow>
          (let tag = int t; buffer1 = buffer @ [tag];
               sub =
                 (if tag = tag_cons T then buffer_tree fuel T 2 buffer1 bs1
                  else if first_meta_rule T \<le> tag \<and> tag \<le> last_meta_rule T then
                    (case meta_rank T (tag - first_meta_rule T) of
                       Inl e \<Rightarrow> Some (Inl e)
                     | Inr k \<Rightarrow> buffer_tree fuel T (nat k) buffer1 bs1)
                  else if first_grammar_rule T \<le> tag \<and> tag \<le> last_grammar_rule T then
                    (let kind = nodeType (dgrammar T) (nat (tag - first_grammar_rule T))
                     in case rules_get (dgrammar T) kind of
                          None \<Rightarrow> Some (Inl TypeError)
                        | Some props \<Rightarrow> buffer_tree fuel T (length props) buffer1 bs1)
                  else Some (Inr (buffer1, bs1)))
           in case sub of
                None \<Rightarrow> None
              | Some (Inl e) \<Rightarrow> Some (Inl e)
              | Some (Inr (buffer2, bs2)) \<Rightarrow> buffer_tree fuel T n buffer2 bs2))"

fun read_meta_rules ::
  "nat \<Rightarrow> tables \<Rightarrow> nat \<Rightarrow> byte list \<Rightarrow> (error + int list list \<times> byte list) option" where
  "read_meta_rules fuel T 0 bs = Some (Inr ([], bs))"
| "read_meta_rules fuel T (Suc n) bs =
     (case buffer_tree fuel T 1 [] bs of
        None \<Rightarrow> None
      | Some (Inl e) \<Rightarrow> Some (Inl e)
      | Some (Inr (body, bs1)) \<Rightarrow>
          (case read_meta_rules fuel T n bs1 of
             None \<Rightarrow> None
           | Some (Inl e) \<Rightarrow> Some (Inl e)
           | Some (Inr (bodies, bs2)) \<Rightarrow> Some (Inr (body # bodies, bs2))))"

text \<open>
  \<open>replay_tree\<close> walks a buffered tree; the token list is the iterator, and an
  exhausted iterator gives the tag \<open>undefined\<close>, which no branch accepts. A meta-rule
  may mention itself, so replay need not end: the first argument bounds the depth.
  \<open>unshift\<close> exists on arrays only. Arrays are values here. In the source an array
  is an object that \<open>unshift\<close> changes in place and that \<open>actuals[tag]\<close> hands out
  again at every mention of the parameter, so the two agree where no array comes from
  a parameter; with \<open>num_parameters T = 0\<close> none does, since that branch is never
  taken and every array is made by \<open>nil\<close> and extended only by the \<open>cons\<close> above it.
\<close>

function (sequential) replay_tree ::
    "nat \<Rightarrow> tables \<Rightarrow> int list \<Rightarrow> jsvalue list \<Rightarrow> (error + jsvalue \<times> int list) option"
  and replay_actuals ::
    "nat \<Rightarrow> tables \<Rightarrow> nat \<Rightarrow> int list \<Rightarrow> jsvalue list \<Rightarrow>
       (error + jsvalue list \<times> int list) option"
  and replay_props ::
    "nat \<Rightarrow> tables \<Rightarrow> string list \<Rightarrow> int list \<Rightarrow> jsvalue list \<Rightarrow>
       (error + (string \<times> jsvalue) list \<times> int list) option" where
  "replay_tree 0 T tree actuals = None"
| "replay_tree (Suc fuel) T [] actuals = Some (Inl AssertionError)"
| "replay_tree (Suc fuel) T (tag # tree) actuals =
     (if tag = tag_nil T then Some (Inr (VList [], tree))
      else if tag = tag_null T then Some (Inr (VNull, tree))
      else if tag = tag_cons T then
        (case replay_tree fuel T tree actuals of
           None \<Rightarrow> None
         | Some (Inl e) \<Rightarrow> Some (Inl e)
         | Some (Inr (elem, tree1)) \<Rightarrow>
             (case replay_tree fuel T tree1 actuals of
                None \<Rightarrow> None
              | Some (Inl e) \<Rightarrow> Some (Inl e)
              | Some (Inr (rest, tree2)) \<Rightarrow>
                  (case rest of
                     VList xs \<Rightarrow> Some (Inr (VList (elem # xs), tree2))
                   | _ \<Rightarrow> Some (Inl TypeError))))
      else if tag = tag_false T then Some (Inr (VBool False, tree))
      else if tag = tag_true T then Some (Inr (VBool True, tree))
      else if tag = tag_undefined T then Some (Inr (VUndefined, tree))
      else if 0 \<le> tag \<and> tag < num_parameters T then
        (if \<not> tag < int (length actuals) then Some (Inl AssertionError)
         else Some (Inr (actuals ! nat tag, tree)))
      else if first_meta_rule T \<le> tag \<and> tag \<le> last_meta_rule T then
        (let rule_i = tag - first_meta_rule T
         in case meta_rank T rule_i of
              Inl e \<Rightarrow> Some (Inl e)
            | Inr k \<Rightarrow>
                (case replay_actuals fuel T (nat k) tree actuals of
                   None \<Rightarrow> None
                 | Some (Inl e) \<Rightarrow> Some (Inl e)
                 | Some (Inr (rule_actuals, tree1)) \<Rightarrow>
                     (case replay_tree fuel T (meta_rules T ! nat rule_i) rule_actuals of
                        None \<Rightarrow> None
                      | Some (Inl e) \<Rightarrow> Some (Inl e)
                      | Some (Inr (v, unused)) \<Rightarrow> Some (Inr (v, tree1)))))
      else if first_grammar_rule T \<le> tag \<and> tag \<le> last_grammar_rule T then
        (let kind = nodeType (dgrammar T) (nat (tag - first_grammar_rule T))
         in case rules_get (dgrammar T) kind of
              None \<Rightarrow> Some (Inl TypeError)
            | Some props \<Rightarrow>
                (case replay_props fuel T props tree actuals of
                   None \<Rightarrow> None
                 | Some (Inl e) \<Rightarrow> Some (Inl e)
                 | Some (Inr (params, tree1)) \<Rightarrow> Some (Inr (new_S kind params, tree1))))
      else if first_string_constant T \<le> tag \<and> tag \<le> last_string_constant T then
        Some (Inr (VStr (string_constants T ! nat (tag - first_string_constant T)), tree))
      else if first_numeric_constant T \<le> tag \<and> tag \<le> last_numeric_constant T then
        (let i = tag - first_numeric_constant T
         in if \<not> (0 \<le> i \<and> i < int (length (numeric_constants T)))
            then Some (Inl AssertionError)
            else Some (Inr (VNum (numeric_constants T ! nat i), tree)))
      else Some (Inl AssertionError))"
| "replay_actuals fuel T 0 tree actuals = Some (Inr ([], tree))"
| "replay_actuals fuel T (Suc k) tree actuals =
     (case replay_tree fuel T tree actuals of
        None \<Rightarrow> None
      | Some (Inl e) \<Rightarrow> Some (Inl e)
      | Some (Inr (v, tree1)) \<Rightarrow>
          (case replay_actuals fuel T k tree1 actuals of
             None \<Rightarrow> None
           | Some (Inl e) \<Rightarrow> Some (Inl e)
           | Some (Inr (vs, tree2)) \<Rightarrow> Some (Inr (v # vs, tree2))))"
| "replay_props fuel T [] tree actuals = Some (Inr ([], tree))"
| "replay_props fuel T (prop # props) tree actuals =
     (case replay_tree fuel T tree actuals of
        None \<Rightarrow> None
      | Some (Inl e) \<Rightarrow> Some (Inl e)
      | Some (Inr (v, tree1)) \<Rightarrow>
          (case replay_props fuel T props tree1 actuals of
             None \<Rightarrow> None
           | Some (Inl e) \<Rightarrow> Some (Inl e)
           | Some (Inr (params, tree2)) \<Rightarrow> Some (Inr ((prop, v) # params, tree2))))"
  by pat_completeness auto
termination
  by (relation "inv_image (less_than <*lex*> less_than)
        (\<lambda>x. case x of
                Inl (fuel, T, tree, actuals) \<Rightarrow> (fuel, 0)
              | Inr (Inl (fuel, T, k, tree, actuals)) \<Rightarrow> (fuel, Suc k)
              | Inr (Inr (fuel, T, props, tree, actuals)) \<Rightarrow> (fuel, Suc (length props)))")
     auto

text \<open>\<open>decodeAbstractSyntax\<close>, in the three stages of the source: the two counts and
  the version check; the tables; the trees and the replay of the start production.\<close>

definition decode_trees ::
  "nat \<Rightarrow> tables \<Rightarrow> byte list \<Rightarrow> (error + jsvalue) option" where
  "decode_trees fuel T bs =
     (case read_meta_rules fuel T (nat (num_meta_rules T)) bs of
        None \<Rightarrow> None
      | Some (Inl e) \<Rightarrow> Some (Inl e)
      | Some (Inr (bodies, bs1)) \<Rightarrow>
          (let T1 = T\<lparr>meta_rules := bodies\<rparr>
           in case buffer_tree fuel T1 1 [] bs1 of
                None \<Rightarrow> None
              | Some (Inl e) \<Rightarrow> Some (Inl e)
              | Some (Inr (start_production, bs2)) \<Rightarrow>
                  (case replay_tree fuel T1 start_production [] of
                     None \<Rightarrow> None
                   | Some (Inl e) \<Rightarrow> Some (Inl e)
                   | Some (Inr (v, unused)) \<Rightarrow> Some (Inr v))))"

definition decode_tables ::
  "host \<Rightarrow> rules \<Rightarrow> nat \<Rightarrow> nat \<Rightarrow> byte list \<Rightarrow> error + tables \<times> byte list" where
  "decode_tables h g np nb bs =
     (case readVarUint bs of
        Inl e \<Rightarrow> Inl e
      | Inr (r, bs1) \<Rightarrow>
     (case readVarUint bs1 of
        Inl e \<Rightarrow> Inl e
      | Inr (c0, bs2) \<Rightarrow>
     (case read_ranks r [0] [0, int c0] bs2 of
        Inl e \<Rightarrow> Inl e
      | Inr (rs, offs, bs3) \<Rightarrow>
     (case readVarUint bs3 of
        Inl e \<Rightarrow> Inl e
      | Inr (ns, bs4) \<Rightarrow>
     (case read_lengths ns bs4 of
        Inl e \<Rightarrow> Inl e
      | Inr (string_lengths, bs5) \<Rightarrow>
     (case read_strings h string_lengths bs5 of
        Inl e \<Rightarrow> Inl e
      | Inr (strs, bs6) \<Rightarrow>
     (case readVarUint bs6 of
        Inl e \<Rightarrow> Inl e
      | Inr (nn, bs7) \<Rightarrow>
     (case read_floats nn bs7 of
        Inl e \<Rightarrow> Inl e
      | Inr (nums, bs8) \<Rightarrow>
          Inr (\<lparr>num_parameters = int np, num_built_in_tags = int nb, ranks = rs,
                rank_offset = offs, dgrammar = g, string_constants = strs,
                numeric_constants = nums, meta_rules = []\<rparr>, bs8)))))))))"

definition decodeAbstractSyntax ::
  "host \<Rightarrow> nat \<Rightarrow> rules \<Rightarrow> byte list \<Rightarrow> (error + jsvalue) option" where
  "decodeAbstractSyntax h fuel g bs =
     (case readVarUint bs of
        Inl e \<Rightarrow> Some (Inl e)
      | Inr (np, bs1) \<Rightarrow>
          (case readVarUint bs1 of
             Inl e \<Rightarrow> Some (Inl e)
           | Inr (nb, bs2) \<Rightarrow>
               if nb < 6 then Some (Inl NotYetImplemented)
               else if nb \<noteq> 6 then Some (Inl (DecoderTooOld nb))
               else (case decode_tables h g np nb bs2 of
                       Inl e \<Rightarrow> Some (Inl e)
                     | Inr (T, bs3) \<Rightarrow> decode_trees fuel T bs3)))"

section \<open>The encoder (encode\_binast.ts)\<close>

text \<open>
  Modelled from the spec: the grammar the TreeRePair engine of treerepair.ts leaves behind,
  a map from nonterminal to production body in discovery order, and the start tree. The
  engine itself is a parameter of \<open>Encoder_encode\<close>.
\<close>

record tr_Grammar =
  tr_rules :: "(symbol \<times> node) list"
  tr_tree :: node

text \<open>What the encoder hands to its \<open>EncodingWriter\<close>, call by call.\<close>

datatype wop = WVarUint int | WUint8Array "byte list" | WFloat number

text \<open>
  The state of \<open>encodeAbstractSyntax\<close>: \<open>symbol_code_map\<close> lists the symbols in the
  order they were added, so the code of a symbol is its index; \<open>written\<close> is the log of
  writes. A failure carries the log of the writes made before it.
\<close>

record enc_state =
  symbol_code_map :: "symbol list"
  written :: "wop list"

type_synonym 'a enc_result = "(error \<times> wop list) + 'a"

definition add_symbol :: "symbol \<Rightarrow> enc_state \<Rightarrow> enc_state enc_result" where
  "add_symbol s st =
     (if s \<in> set (symbol_code_map st) then Inl (AssertionError, written st)
      else Inr (st\<lparr>symbol_code_map := symbol_code_map st @ [s]\<rparr>))"

fun add_symbols :: "symbol list \<Rightarrow> enc_state \<Rightarrow> enc_state enc_result" where
  "add_symbols [] st = Inr st"
| "add_symbols (s # ss) st =
     (case add_symbol s st of Inl e \<Rightarrow> Inl e | Inr st' \<Rightarrow> add_symbols ss st')"

definition emit :: "wop \<Rightarrow> enc_state \<Rightarrow> enc_state" where
  "emit w st = st\<lparr>written := written st @ [w]\<rparr>"

text \<open>A \<open>Set\<close> keeps the first insertion of an element.\<close>

definition set_add :: "'a \<Rightarrow> 'a list \<Rightarrow> 'a list" where
  "set_add x xs = (if x \<in> set xs then xs else xs @ [x])"

definition parameters :: "tr_Grammar \<Rightarrow> symbol list" where
  "parameters trg =
     foldl (\<lambda>ps p. set_add p ps) [] (concat (map (\<lambda>(symbol, body). formals symbol) (tr_rules trg)))"

fun meta_add :: "symbol \<Rightarrow> (nat \<times> symbol list) list \<Rightarrow> (nat \<times> symbol list) list" where
  "meta_add s [] = [(rank s, [s])]"
| "meta_add s ((r, ss) # m) =
     (if r = rank s then (r, set_add s ss) # m else (r, ss) # meta_add s m)"

definition meta_by_size :: "tr_Grammar \<Rightarrow> (nat \<times> symbol list) list" where
  "meta_by_size trg = foldl (\<lambda>m s. meta_add s m) [(0, [])] (map fst (tr_rules trg))"

definition symbols_by_size :: "tr_Grammar \<Rightarrow> (nat \<times> symbol list) list" where
  "symbols_by_size trg = sort_key fst (meta_by_size trg)"

text \<open>The loop over the rank buckets: the rank delta (not for rank 0), the count, the
  codes of the bucket's symbols.\<close>

fun write_ranks :: "int \<Rightarrow> (nat \<times> symbol list) list \<Rightarrow> enc_state \<Rightarrow> enc_state enc_result" where
  "write_ranks last_rank [] st = Inr st"
| "write_ranks last_rank ((rnk, count) # rest) st =
     (let st1 = (if rnk \<noteq> 0 then emit (WVarUint (int rnk - last_rank - 1)) st else st);
          last_rank1 = (if rnk \<noteq> 0 then int rnk else last_rank);
          st2 = emit (WVarUint (int (length count))) st1
      in case add_symbols count st2 of
           Inl e \<Rightarrow> Inl e
         | Inr st3 \<Rightarrow> write_ranks last_rank1 rest st3)"

text \<open>
  The string pool in code order: the entries of \<open>t_strings\<close> sorted by key. The
  comparator throws when it meets two equal keys, which a sort does exactly when the
  array holds a key twice. \<open>Array.prototype.sort\<close> is stable.
\<close>

definition sorted_strings ::
  "TreeRePairApplicator \<Rightarrow> error + (string \<times> nat \<times> symbol) list" where
  "sorted_strings a =
     (if distinct (map fst (t_strings a)) then Inr (sort_key fst (t_strings a))
      else Inl Unreachable)"

fun write_string_lengths ::
  "host \<Rightarrow> (string \<times> nat \<times> symbol) list \<Rightarrow> enc_state \<Rightarrow> enc_state enc_result" where
  "write_string_lengths h [] st = Inr st"
| "write_string_lengths h ((s, c, t) # rest) st =
     (let bytes = utf8_encode h s;
          st1 = emit (WVarUint (int (length bytes))) st
      in case add_symbol t st1 of
           Inl e \<Rightarrow> Inl e
         | Inr st2 \<Rightarrow> write_string_lengths h rest st2)"

definition sorted_numbers :: "TreeRePairApplicator \<Rightarrow> (number \<times> nat \<times> symbol) list" where
  "sorted_numbers a = sort_key (\<lambda>(v, c, t). - int c) (t_numbers a)"

fun write_numbers :: "(number \<times> nat \<times> symbol) list \<Rightarrow> enc_state \<Rightarrow> enc_state enc_result" where
  "write_numbers [] st = Inr st"
| "write_numbers ((v, c, t) # rest) st =
     (case add_symbol t (emit (WFloat v) st) of
        Inl e \<Rightarrow> Inl e
      | Inr st1 \<Rightarrow> write_numbers rest st1)"

text \<open>\<open>write_tree\<close>: a label without a code reads as \<open>undefined\<close>, which
  \<open>writeVarUint\<close> refuses.\<close>

fun index_of :: "'a \<Rightarrow> 'a list \<Rightarrow> nat option" where
  "index_of x [] = None"
| "index_of x (y # ys) = (if x = y then Some 0 else map_option Suc (index_of x ys))"

fun write_labels :: "symbol list \<Rightarrow> enc_state \<Rightarrow> enc_state enc_result" where
  "write_labels [] st = Inr st"
| "write_labels (l # ls) st =
     (case index_of l (symbol_code_map st) of
        None \<Rightarrow> Inl (AssertionError, written st)
      | Some code \<Rightarrow> write_labels ls (emit (WVarUint (int code)) st))"

definition write_tree :: "node \<Rightarrow> enc_state \<Rightarrow> enc_state enc_result" where
  "write_tree tree st = write_labels (pre_order tree) st"

fun write_rules :: "tr_Grammar \<Rightarrow> symbol list \<Rightarrow> enc_state \<Rightarrow> enc_state enc_result" where
  "write_rules trg [] st = Inr st"
| "write_rules trg (s # ss) st =
     (case map_of (tr_rules trg) s of
        None \<Rightarrow> Inl (TypeError, written st)
      | Some tree \<Rightarrow>
          (case write_tree tree st of
             Inl e \<Rightarrow> Inl e
           | Inr st1 \<Rightarrow> write_rules trg ss st1))"

definition built_ins :: "symbol list" where
  "built_ins = [t_nil, t_null, t_cons, t_false, t_true, t_undefined]"

definition encodeAbstractSyntax ::
  "host \<Rightarrow> TreeRePairApplicator \<Rightarrow> tr_Grammar \<Rightarrow> enc_state enc_result" where
  "encodeAbstractSyntax h a trg =
     (let st0 = \<lparr>symbol_code_map = [], written = []\<rparr>;
          num_parameters = length (parameters trg);
          st1 = emit (WVarUint (int num_parameters)) st0
      in case add_symbols (parameters trg) st1 of Inl e \<Rightarrow> Inl e | Inr st2 \<Rightarrow>
         if length (symbol_code_map st2) \<noteq> num_parameters then Inl (AssertionError, written st2)
         else
         (case add_symbols built_ins (emit (WVarUint 6) st2) of Inl e \<Rightarrow> Inl e | Inr st3 \<Rightarrow>
         (case write_ranks 0 (symbols_by_size trg)
                 (emit (WVarUint (int (length (meta_by_size trg)) - 1)) st3) of
            Inl e \<Rightarrow> Inl e | Inr st4 \<Rightarrow>
         (case add_symbols (map snd (t_kind a)) st4 of Inl e \<Rightarrow> Inl e | Inr st5 \<Rightarrow>
         (let st6 = emit (WVarUint (int (length (t_strings a)))) st5
          in case sorted_strings a of Inl e \<Rightarrow> Inl (e, written st6) | Inr strs \<Rightarrow>
         (case write_string_lengths h strs st6 of Inl e \<Rightarrow> Inl e | Inr st7 \<Rightarrow>
         (let st8 = foldl (\<lambda>st (s, c, t). emit (WUint8Array (utf8_encode h s)) st) st7 strs;
              st9 = emit (WVarUint (int (length (t_numbers a)))) st8
          in case write_numbers (sorted_numbers a) st9 of Inl e \<Rightarrow> Inl e | Inr st10 \<Rightarrow>
         (case write_rules trg (concat (map snd (symbols_by_size trg))) st10 of
            Inl e \<Rightarrow> Inl e | Inr st11 \<Rightarrow>
         write_tree (tr_tree trg) st11))))))))"

text \<open>Carrying out the logged writes on a stream.\<close>

fun run_wops ::
    "host \<Rightarrow> wop list \<Rightarrow> FixedSizeBufStream \<Rightarrow> (error + FixedSizeBufStream) option" where
  "run_wops h [] s = Some (Inr s)"
| "run_wops h (WVarUint v # ws) s =
     (case writeVarUint v s of
        None \<Rightarrow> None
      | Some (Inl e) \<Rightarrow> Some (Inl e)
      | Some (Inr (n, s')) \<Rightarrow> run_wops h ws s')"
| "run_wops h (WUint8Array bs # ws) s = run_wops h ws (snd (writeUint8Array bs s))"
| "run_wops h (WFloat f # ws) s =
     (case writeFloat (nan_bits h) f s of
        Inl e \<Rightarrow> Some (Inl e)
      | Inr (n, s') \<Rightarrow> run_wops h ws s')"

text \<open>
  \<open>encodeGrammar\<close>. Modelled from the spec: \<open>Grammar.visit\<close> (the \<open>Grammar\<close> class is
  not among the sources) is the recoverer's \<open>visit\<close>, started on no rules.
\<close>

definition encodeGrammar :: "host \<Rightarrow> jsvalue \<Rightarrow> (error \<times> wop list) + rules \<times> wop list" where
  "encodeGrammar h script =
     (case visit [] script of
        Inl e \<Rightarrow> Inl (e, [])
      | Inr g \<Rightarrow>
          if rules_get g ''Script'' = None then Inl (AssertionError, [])
          else (let bytes = utf8_encode h (json_stringify h g)
                in Inr (g, [WVarUint (int (length bytes)), WUint8Array bytes])))"

text \<open>
  \<open>Encoder.encode\<close> on a fresh stream, with the applicator's \<open>apply\<close> in between:
  \<open>build\<close>, then the TreeRePair engine. The result is the bytes the stream holds, an
  error after the writes before it, or \<open>None\<close> when a write does not return.
\<close>

definition Encoder_encode ::
  "host \<Rightarrow> (node \<Rightarrow> tr_Grammar) \<Rightarrow> jsvalue \<Rightarrow> (error + byte list) option" where
  "Encoder_encode h engine script =
     (let fail = (\<lambda>e ws. case run_wops h ws new_FixedSizeBufStream of
                             None \<Rightarrow> None
                           | Some (Inl e') \<Rightarrow> Some (Inl e')
                           | Some (Inr s) \<Rightarrow> Some (Inl e))
      in case encodeGrammar h script of
           Inl (e, ws) \<Rightarrow> fail e ws
         | Inr (g, ws1) \<Rightarrow>
             (case build (new_TreeRePairApplicator g) script of
                Inl e \<Rightarrow> fail e ws1
              | Inr (tree, a) \<Rightarrow>
                  (case encodeAbstractSyntax h a (engine tree) of
                     Inl (e, ws2) \<Rightarrow> fail e (ws1 @ ws2)
                   | Inr st \<Rightarrow>
                       (case run_wops h (ws1 @ written st) new_FixedSizeBufStream of
                          None \<Rightarrow> None
                        | Some (Inl e) \<Rightarrow> Some (Inl e)
                        | Some (Inr s) \<Rightarrow> Some (Inr (copyToWritable s))))))"

text \<open>\<open>Decoder.decode\<close> of the TreeRePair decoder: the grammar block, then the
  abstract syntax.\<close>

definition decodeGrammar :: "host \<Rightarrow> byte list \<Rightarrow> error + rules \<times> byte list" where
  "decodeGrammar h bs =
     (case readVarUint bs of
        Inl e \<Rightarrow> Inl e
      | Inr (len, bs1) \<Rightarrow>
          (case readUtf8Bytes h len bs1 of
             Inl e \<Rightarrow> Inl e
           | Inr (source, bs2) \<Rightarrow>
               (case json_parse h source of
                  None \<Rightarrow> Inl SyntaxError
                | Some rules \<Rightarrow> Inr (rules, bs2))))"

definition Decoder_decode :: "host \<Rightarrow> nat \<Rightarrow> byte list \<Rightarrow> (error + jsvalue) option" where
  "Decoder_decode h fuel bs =
     (case decodeGrammar h bs of
        Inl e \<Rightarrow> Some (Inl e)
      | Inr (g, bs1) \<Rightarrow> decodeAbstractSyntax h fuel g bs1)"

section \<open>A concrete platform for the examples\<close>

text \<open>
  The platform functions on what the examples use: text of one-byte characters, and the
  JSON text of a grammar object whose names need no escaping, without white space. The
  parser is a state machine over the tokens of the text.
\<close>

definition quote :: "string \<Rightarrow> string" where
  "quote s = CHR 0x22 # s @ [CHR 0x22]"

fun join :: "string \<Rightarrow> string list \<Rightarrow> string" where
  "join sep [] = []"
| "join sep [x] = x"
| "join sep (x # y # ys) = x @ sep @ join sep (y # ys)"

definition stringify_rules :: "rules \<Rightarrow> string" where
  "stringify_rules g =
     ''{'' @ join '','' (map (\<lambda>(kind, props).
                quote kind @ '':['' @ join '','' (map quote props) @ '']'') g) @ ''}''"

datatype json_token = LBrace | RBrace | LBrack | RBrack | Colon | Comma | Str string

fun json_tokens :: "string option \<Rightarrow> string \<Rightarrow> json_token list option" where
  "json_tokens None [] = Some []"
| "json_tokens (Some s) [] = None"
| "json_tokens (Some s) (c # cs) =
     (if c = CHR 0x22 then map_option (Cons (Str s)) (json_tokens None cs)
      else json_tokens (Some (s @ [c])) cs)"
| "json_tokens None (c # cs) =
     (if c = CHR 0x22 then json_tokens (Some []) cs
      else if c = CHR ''{'' then map_option (Cons LBrace) (json_tokens None cs)
      else if c = CHR ''}'' then map_option (Cons RBrace) (json_tokens None cs)
      else if c = CHR ''['' then map_option (Cons LBrack) (json_tokens None cs)
      else if c = CHR '']'' then map_option (Cons RBrack) (json_tokens None cs)
      else if c = CHR '':'' then map_option (Cons Colon) (json_tokens None cs)
      else if c = CHR '','' then map_option (Cons Comma) (json_tokens None cs)
      else None)"

datatype parse_state =
    AtStart | FirstKey | AfterKey | BeforeArray | FirstItem | AfterItem | NextItem
  | AfterArray | NextKey | AtEnd

definition parse_step ::
  "parse_state \<Rightarrow> rules \<Rightarrow> string \<Rightarrow> string list \<Rightarrow> json_token \<Rightarrow>
     (parse_state \<times> rules \<times> string \<times> string list) option" where
  "parse_step st g k ps t =
     (case t of
        LBrace \<Rightarrow> if st = AtStart then Some (FirstKey, g, k, ps) else None
      | RBrace \<Rightarrow> if st = FirstKey \<or> st = AfterArray then Some (AtEnd, g, k, ps) else None
      | LBrack \<Rightarrow> if st = BeforeArray then Some (FirstItem, g, k, ps) else None
      | RBrack \<Rightarrow>
          if st = FirstItem \<or> st = AfterItem then Some (AfterArray, g @ [(k, ps)], k, ps)
          else None
      | Colon \<Rightarrow> if st = AfterKey then Some (BeforeArray, g, k, ps) else None
      | Comma \<Rightarrow>
          if st = AfterItem then Some (NextItem, g, k, ps)
          else if st = AfterArray then Some (NextKey, g, k, ps)
          else None
      | Str s \<Rightarrow>
          if st = FirstKey \<or> st = NextKey then Some (AfterKey, g, s, [])
          else if st = FirstItem \<or> st = NextItem then Some (AfterItem, g, k, ps @ [s])
          else None)"

fun parse_tokens ::
  "parse_state \<Rightarrow> rules \<Rightarrow> string \<Rightarrow> string list \<Rightarrow> json_token list \<Rightarrow> rules option" where
  "parse_tokens st g k ps [] = (if st = AtEnd then Some g else None)"
| "parse_tokens st g k ps (t # ts) =
     (case parse_step st g k ps t of
        None \<Rightarrow> None
      | Some (st', g', k', ps') \<Rightarrow> parse_tokens st' g' k' ps' ts)"

definition parse_rules :: "string \<Rightarrow> rules option" where
  "parse_rules s =
     (case json_tokens None s of
        None \<Rightarrow> None
      | Some ts \<Rightarrow> parse_tokens AtStart [] [] [] ts)"

definition ascii_host :: host where
  "ascii_host =
     \<lparr>utf8_encode = map (\<lambda>c. of_nat (of_char c)),
      utf8_decode = map (\<lambda>b. char_of (unat b)),
      json_stringify = stringify_rules,
      json_parse = parse_rules,
      nan_bits = 0x7ff8000000000000\<rparr>"

text \<open>Modelled from the spec: on a tree in which no digram occurs twice the TreeRePair
  engine finds nothing to replace; it returns the tree and no production.\<close>

definition no_production :: "node \<Rightarrow> tr_Grammar" where
  "no_production tree = \<lparr>tr_rules = [], tr_tree = tree\<rparr>"

text \<open>The digrams of a tree: parent label, child position, child label.\<close>

fun digrams :: "node \<Rightarrow> (symbol \<times> nat \<times> symbol) list" where
  "digrams (Node l cs) =
     map (\<lambda>(i, c). (l, i, case c of Node l' cs' \<Rightarrow> l')) (zip [0..<length cs] cs) @
     concat (map digrams cs)"





text \<open>A script whose only number is negative zero; its properties are in sorted order.\<close>

definition neg_zero :: number where
  "neg_zero = Num 0x8000000000000000"

definition neg_zero_script :: jsvalue where
  "neg_zero_script =
     VObj ''Script''
       [(''directives'', VList []),
        (''statements'',
           VList [VObj ''ExpressionStatement''
                    [(''expression'',
                        VObj ''LiteralNumericExpression'' [(''value'', VNum neg_zero)])]])]"

text \<open>
  What the encoder makes of that script: the grammar, the bytes of the grammar's JSON
  text, the tree (no digram occurs twice in it), the applicator after \<open>build\<close>, the
  state after \<open>encodeAbstractSyntax\<close>, and the bytes of the whole encoding. The last
  is the script as the decoder returns it.
\<close>

definition neg_zero_grammar :: rules where
  "neg_zero_grammar =
     [(''Script'', [''directives'', ''statements'']),
      (''ExpressionStatement'', [''expression'']),
      (''LiteralNumericExpression'', [''value''])]"

definition neg_zero_grammar_bytes :: "byte list" where
  "neg_zero_grammar_bytes =
     [123, 34, 83, 99, 114, 105, 112, 116, 34, 58, 91, 34, 100, 105, 114, 101, 99, 116,
      105, 118, 101, 115, 34, 44, 34, 115, 116, 97, 116, 101, 109, 101, 110, 116, 115, 34,
      93, 44, 34, 69, 120, 112, 114, 101, 115, 115, 105, 111, 110, 83, 116, 97, 116, 101,
      109, 101, 110, 116, 34, 58, 91, 34, 101, 120, 112, 114, 101, 115, 115, 105, 111,
      110, 34, 93, 44, 34, 76, 105, 116, 101, 114, 97, 108, 78, 117, 109, 101, 114, 105,
      99, 69, 120, 112, 114, 101, 115, 115, 105, 111, 110, 34, 58, 91, 34, 118, 97, 108,
      117, 101, 34, 93, 125]"

definition neg_zero_tree :: node where
  "neg_zero_tree =
     Node (Terminal (T_kind ''Script'') 2)
       [Node t_nil [],
        Node t_cons
          [Node (Terminal (T_kind ''ExpressionStatement'') 1)
             [Node (Terminal (T_kind ''LiteralNumericExpression'') 1)
                [Node (Terminal (T_number (Num 0)) 0) []]],
           Node t_nil []]]"

definition neg_zero_applicator :: TreeRePairApplicator where
  "neg_zero_applicator =
     \<lparr>grammar = neg_zero_grammar,
      t_kind =
        [(''Script'', Terminal (T_kind ''Script'') 2),
         (''ExpressionStatement'', Terminal (T_kind ''ExpressionStatement'') 1),
         (''LiteralNumericExpression'', Terminal (T_kind ''LiteralNumericExpression'') 1)],
      t_numbers = [(Num 0, 1, Terminal (T_number (Num 0)) 0)],
      t_strings = []\<rparr>"

definition neg_zero_state :: enc_state where
  "neg_zero_state =
     \<lparr>symbol_code_map =
        [t_nil, t_null, t_cons, t_false, t_true, t_undefined,
         Terminal (T_kind ''Script'') 2,
         Terminal (T_kind ''ExpressionStatement'') 1,
         Terminal (T_kind ''LiteralNumericExpression'') 1,
         Terminal (T_number (Num 0)) 0],
      written =
        [WVarUint 0, WVarUint 6, WVarUint 0, WVarUint 0, WVarUint 0, WVarUint 1,
         WFloat (Num 0), WVarUint 6, WVarUint 0, WVarUint 2, WVarUint 7, WVarUint 8,
         WVarUint 9, WVarUint 0]\<rparr>"

definition neg_zero_syntax_bytes :: "byte list" where
  "neg_zero_syntax_bytes = [0, 6, 0, 0, 0, 1, 0, 0, 0, 0, 0, 0, 0, 0, 6, 0, 2, 7, 8, 9, 0]"

definition neg_zero_bytes :: "byte list" where
  "neg_zero_bytes = 112 # neg_zero_grammar_bytes @ neg_zero_syntax_bytes"

definition pos_zero_script :: jsvalue where
  "pos_zero_script =
     VObj ''Script''
       [(''directives'', VList []),
        (''statements'',
           VList [VObj ''ExpressionStatement''
                    [(''expression'',
                        VObj ''LiteralNumericExpression'' [(''value'', VNum (Num 0))])]])]"

section \<open>The header as the format describes it\<close>



text \<open>The bytes a write puts on the stream when its number is below \<open>2^31\<close>.\<close>

fun wop_bytes :: "host \<Rightarrow> wop \<Rightarrow> byte list" where
  "wop_bytes h (WVarUint v) = varuint_groups (nat v)"
| "wop_bytes h (WUint8Array bs) = bs"
| "wop_bytes h (WFloat f) = float_bytes (stored_bits (nan_bits h) f)"

definition small_wops :: "wop list \<Rightarrow> bool" where
  "small_wops ws \<longleftrightarrow> (\<forall>w \<in> set ws. case w of WVarUint v \<Rightarrow> v < 2 ^ 31 | _ \<Rightarrow> True)"

text \<open>The code of a symbol: its index in \<open>symbol_code_map\<close>.\<close>

definition code_of :: "enc_state \<Rightarrow> symbol \<Rightarrow> nat option" where
  "code_of st s = index_of s (symbol_code_map st)"

section \<open>Properties of the byte stream\<close>

lemma take_upd_last: "i < length xs \<Longrightarrow> take (Suc i) (xs[i := x]) = take i xs @ [x]"
  by (simp add: take_Suc_conv_app_nth)

lemma upd_last_full: "Suc i = length xs \<Longrightarrow> xs[i := x] = take i xs @ [x]"
  by (metis lessI take_upd_last length_list_update order_refl take_all)

lemma copyToWritable_writeByte:
  assumes "stream_inv s"
  shows "copyToWritable (snd (writeByte b s)) = copyToWritable s @ [ToUint8 b]"
  using assms
  by (auto simp: stream_inv_def writeByte_def copyToWritable_def Let_def resetCurrent_def
      take_upd_last upd_last_full)

lemma stream_inv_writeByte:
  assumes "stream_inv s"
  shows "stream_inv (snd (writeByte b s))"
  using assms
  by (auto simp: stream_inv_def writeByte_def Let_def resetCurrent_def FIXED_SIZE_def)

lemma stream_inv_new: "stream_inv new_FixedSizeBufStream"
  by (simp add: stream_inv_def new_FixedSizeBufStream_def resetCurrent_def FIXED_SIZE_def)

lemma copyToWritable_new: "copyToWritable new_FixedSizeBufStream = []"
  by (simp add: copyToWritable_def new_FixedSizeBufStream_def resetCurrent_def)

lemma unat_ToUint8: "unat (ToUint8 b) = nat (b mod 256)"
  by (simp add: ToUint8_def unat_eq_nat_uint uint_word_of_int)

lemma fst_writeByte: "fst (writeByte b s) = 1"
  by (simp add: writeByte_def Let_def)

text \<open>
  C10. \<open>writeByte\<close> has no failing branch. For every integer \<open>b\<close> it returns 1 and the
  size grows by exactly 1; the byte kept is \<open>b\<close> modulo 256, and on every stream
  built by the constructor and earlier writes that byte is appended to the output.
\<close>

theorem writeByte_wraps:
  "fst (writeByte b s) = 1 \<and>
   stream_size (snd (writeByte b s)) = stream_size s + 1 \<and>
   unat (ToUint8 b) = nat (b mod 256) \<and>
   (stream_inv s \<longrightarrow>
      stream_inv (snd (writeByte b s)) \<and>
      copyToWritable (snd (writeByte b s)) = copyToWritable s @ [ToUint8 b])"
  by (simp add: copyToWritable_writeByte stream_inv_writeByte unat_ToUint8)
     (auto simp: writeByte_def Let_def stream_size_def resetCurrent_def)

theorem writeByte_wraps_witness:
  "stream_inv new_FixedSizeBufStream \<and>
   fst (writeByte 300 new_FixedSizeBufStream) = 1 \<and>
   stream_size (snd (writeByte 300 new_FixedSizeBufStream)) = 1 \<and>
   unat (ToUint8 300) = 44 \<and>
   copyToWritable (snd (writeByte 300 new_FixedSizeBufStream)) = [44]"
proof -
  have sz: "stream_size new_FixedSizeBufStream = 0"
    by (simp add: stream_size_def new_FixedSizeBufStream_def resetCurrent_def)
  have b: "ToUint8 300 = 44"
    by (simp add: ToUint8_def)
  show ?thesis
    using writeByte_wraps [of 300 new_FixedSizeBufStream]
    by (simp add: stream_inv_new copyToWritable_new sz b)
qed

section \<open>Variable-length unsigned integers\<close>

lemma ToInt32_id: "0 \<le> v \<Longrightarrow> v < 2 ^ 31 \<Longrightarrow> ToInt32 v = v"
  unfolding ToInt32_def by (rule signed_take_bit_int_eq_self) auto

lemma int_and_127: "(v::int) AND 127 = v mod 128"
proof -
  have "(127::int) = mask 7" by (simp add: mask_eq_exp_minus_1)
  then have "v AND 127 = take_bit 7 v" by (simp add: take_bit_eq_mask)
  then show ?thesis by (simp add: take_bit_eq_mod)
qed

lemma js_and_7f: "0 \<le> v \<Longrightarrow> v < 2 ^ 31 \<Longrightarrow> js_and v 0x7f = v mod 128"
  by (simp add: js_and_def ToInt32_id int_and_127)

lemma js_sar_7: "0 \<le> v \<Longrightarrow> v < 2 ^ 31 \<Longrightarrow> js_sar v 7 = v div 128"
  by (simp add: js_sar_def ToInt32_id drop_bit_eq_div)

lemma int_or_128: 
  assumes "0 \<le> b" "b < 128" shows "(b::int) OR 128 = b + 128"
proof -
  have "b div 2 ^ 7 = 0" using assms by simp
  then have "\<not> bit b 7" by (simp add: bit_iff_odd)
  then have "b AND 2 ^ 7 = 0" using and_exp_eq_0_iff_not_bit [of b 7] by blast
  then have "b + 2 ^ 7 = b OR 2 ^ 7" by (rule disjunctive_add_eq_or)
  then show ?thesis by simp
qed

lemma ToInt32_small: "0 \<le> b \<Longrightarrow> b < 128 \<Longrightarrow> ToInt32 b = b"
  by (rule ToInt32_id) auto

lemma js_or_80: "0 \<le> b \<Longrightarrow> b < 128 \<Longrightarrow> js_or b 0x80 = b + 128"
  using ToInt32_id [of 128] by (simp add: js_or_def ToInt32_small int_or_128)

lemma js_or_0: "0 \<le> b \<Longrightarrow> b < 128 \<Longrightarrow> js_or b 0 = b"
  using ToInt32_id [of 0] by (simp add: js_or_def ToInt32_small)



declare varuint_groups.simps [simp del]
declare bitlen.simps [simp del]

lemma writeVarUint_loop_last:
  assumes "stream_inv s" "v < 128"
  shows "writeVarUint_loop (int v) n s = Some (n + 1, snd (writeByte (int v) s))"
proof -
  have a: "js_and (int v) 0x7f = int v"
    using assms by (simp add: js_and_7f)
  have d: "js_sar (int v) 7 = 0"
    using assms by (simp add: js_sar_7)
  have o: "js_or (int v) 0 = int v"
    using assms by (simp add: js_or_0)
  show ?thesis
    by (subst writeVarUint_loop.simps) (simp add: a d o Let_def fst_writeByte)
qed

lemma writeVarUint_loop_more:
  assumes "stream_inv s" "v < 2 ^ 31" "\<not> v < 128"
  shows "writeVarUint_loop (int v) n s =
         writeVarUint_loop (int (v div 128)) (n + 1) (snd (writeByte (int (v mod 128 + 128)) s))"
proof -
  have v: "int v < 2 ^ 31" using assms(2) by (metis of_nat_less_numeral_power_cancel_iff)
  have a: "js_and (int v) 0x7f = int (v mod 128)"
    using v by (simp add: js_and_7f zmod_int)
  have d: "js_sar (int v) 7 = int (v div 128)"
    using v by (simp add: js_sar_7 zdiv_int)
  have nz: "int (v div 128) \<noteq> 0" using assms(3) by simp
  have o: "js_or (int (v mod 128)) 0x80 = int (v mod 128 + 128)"
    by (simp add: js_or_80)
  show ?thesis
    by (subst writeVarUint_loop.simps) (simp only: a d o nz Let_def fst_writeByte if_True not_False_eq_True)
qed


lemma writeVarUint_loop_groups:
  assumes "stream_inv s" "v < 2 ^ 31"
  shows "\<exists>s'. writeVarUint_loop (int v) n s = Some (n + length (varuint_groups v), s') \<and>
              stream_inv s' \<and>
              copyToWritable s' = copyToWritable s @ varuint_groups v"
  using assms
proof (induction v arbitrary: n s rule: less_induct)
  case (less v)
  show ?case
  proof (cases "v < 128")
    case True
    have g: "varuint_groups v = [of_nat v]"
      using True by (simp add: varuint_groups.simps)
    show ?thesis
      using less.prems(1) True
      by (simp add: writeVarUint_loop_last g stream_inv_writeByte
          copyToWritable_writeByte ToUint8_def)
  next
    case False
    have lt: "v div 128 < v" using False by simp
    have lt2: "v div 128 < 2 ^ 31" using lt less.prems(2) by (rule less_trans)
    have g: "varuint_groups v = of_nat (v mod 128 + 128) # varuint_groups (v div 128)"
      using False by (subst varuint_groups.simps) simp
    let ?s1 = "snd (writeByte (int (v mod 128 + 128)) s)"
    have inv1: "stream_inv ?s1" using less.prems(1) by (rule stream_inv_writeByte)
    have c1: "copyToWritable ?s1 = copyToWritable s @ [of_nat (v mod 128 + 128)]"
      using less.prems(1) by (simp add: copyToWritable_writeByte ToUint8_def)
    from less.IH [OF lt inv1 lt2, of "n + 1"]
    obtain s' where s': "writeVarUint_loop (int (v div 128)) (n + 1) ?s1 =
         Some (n + 1 + length (varuint_groups (v div 128)), s')"
       "stream_inv s'" "copyToWritable s' = copyToWritable ?s1 @ varuint_groups (v div 128)"
      by blast
    have "writeVarUint_loop (int v) n s = writeVarUint_loop (int (v div 128)) (n + 1) ?s1"
      using less.prems False by (rule writeVarUint_loop_more)
    then show ?thesis using s' c1 g by simp
  qed
qed

lemma byte_and_7f: "unat ((b::byte) AND 0x7f) = unat b mod 128"
proof -
  have "unat (b AND 0x7f) = unat b AND unat (0x7f::byte)" by (rule unsigned_and_eq)
  also have "\<dots> = unat b AND mask 7" by (simp add: mask_eq_exp_minus_1)
  also have "\<dots> = take_bit 7 (unat b)" by (simp add: take_bit_eq_mask)
  finally show ?thesis by (simp add: take_bit_eq_mod)
qed

lemma byte_and_80: "((b::byte) AND 0x80 = 0) \<longleftrightarrow> unat b < 128"
proof -
  have lt: "unat b < 256" using unsigned_less [of b] by simp
  have "(b AND 2 ^ 7 = 0) \<longleftrightarrow> \<not> bit b 7" by (rule and_exp_eq_0_iff_not_bit)
  also have "\<dots> \<longleftrightarrow> \<not> bit (unat b) 7" by (simp add: bit_unsigned_iff)
  also have "\<dots> \<longleftrightarrow> even (unat b div 128)" by (simp add: bit_iff_odd)
  also have "\<dots> \<longleftrightarrow> unat b < 128"
  proof (cases "unat b < 128")
    case True then show ?thesis by simp
  next
    case False
    then have "unat b div 128 = 1" using lt by simp
    then show ?thesis using False by simp
  qed
  finally show ?thesis by simp
qed

lemma unat_group_last: "v < 128 \<Longrightarrow> unat (of_nat v :: byte) = v"
  by (simp add: unat_of_nat)

lemma unat_group_more: "unat (of_nat (v mod 128 + 128) :: byte) = v mod 128 + 128"
proof -
  have "v mod 128 + 128 < 256" by simp
  then show ?thesis unfolding unat_of_nat by simp
qed

lemma readVarUint_loop_groups:
  "k + length (varuint_groups v) \<le> 10 \<Longrightarrow>
   readVarUint_loop k acc (varuint_groups v @ rest) = Inr (acc + v * 2 ^ (7 * k), rest)"
proof (induction v arbitrary: k acc rule: less_induct)
  case (less v)
  show ?case
  proof (cases "v < 128")
    case True
    have g: "varuint_groups v = [of_nat v]"
      using True by (simp add: varuint_groups.simps)
    have u: "unat (of_nat v :: byte) = v" using True by (rule unat_group_last)
    have m: "unat ((of_nat v :: byte) AND 0x7f) = v"
      using True by (simp add: byte_and_7f u)
    have h: "(of_nat v :: byte) AND 0x80 = 0" using True by (simp add: byte_and_80 u)
    show ?thesis using less.prems by (simp add: g m h)
  next
    case False
    have lt: "v div 128 < v" using False by simp
    have g: "varuint_groups v = of_nat (v mod 128 + 128) # varuint_groups (v div 128)"
      using False by (subst varuint_groups.simps) simp
    have m: "unat ((of_nat (v mod 128 + 128) :: byte) AND 0x7f) = v mod 128"
      unfolding byte_and_7f unat_group_more by simp
    have h: "(of_nat (v mod 128 + 128) :: byte) AND 0x80 \<noteq> 0"
      unfolding byte_and_80 unat_group_more by simp
    have k: "Suc k + length (varuint_groups (v div 128)) \<le> 10" "\<not> 10 \<le> k"
      using less.prems by (simp_all add: g)
    have e: "(2::nat) ^ (7 * Suc k) = 128 * 2 ^ (7 * k)" by (simp add: power_add)
    have d: "\<And>a b X. (a::nat) * X + b * (128 * X) = (a + 128 * b) * X"
      by (simp add: algebra_simps)
    have "acc + v mod 128 * 2 ^ (7 * k) + v div 128 * 2 ^ (7 * Suc k) = acc + v * 2 ^ (7 * k)"
      unfolding e add.assoc d by simp
    then show ?thesis
      using less.IH [OF lt k(1)] k(2) h m by (simp add: g Let_def)
  qed
qed


lemma bitlen_shift: "2 ^ k \<le> v \<Longrightarrow> bitlen v = k + bitlen (v div 2 ^ k)"
proof (induction k arbitrary: v)
  case 0
  then show ?case by simp
next
  case (Suc k)
  have "0 < (2::nat) ^ Suc k" by simp
  with Suc.prems have pos: "v \<noteq> 0" by linarith
  have "2 ^ k \<le> v div 2" using Suc.prems by simp
  then have "bitlen (v div 2) = k + bitlen (v div 2 div 2 ^ k)" by (rule Suc.IH)
  moreover have "v div 2 div 2 ^ k = v div 2 ^ Suc k" by (simp add: div_mult2_eq)
  moreover have "bitlen v = Suc (bitlen (v div 2))" using pos by (subst bitlen.simps) simp
  ultimately show ?case by simp
qed

lemma bitlen_le: "v < 2 ^ k \<Longrightarrow> bitlen v \<le> k"
proof (induction k arbitrary: v)
  case 0
  then show ?case by (simp add: bitlen.simps)
next
  case (Suc k)
  have "v div 2 < 2 ^ k" using Suc.prems by simp
  then have "bitlen (v div 2) \<le> k" by (rule Suc.IH)
  then show ?case by (subst bitlen.simps) simp
qed

lemma bitlen_pos: "0 < v \<Longrightarrow> 0 < bitlen v"
  by (subst bitlen.simps) simp

lemma length_varuint_groups:
  "length (varuint_groups v) = max 1 ((bitlen v + 6) div 7)"
proof (induction v rule: less_induct)
  case (less v)
  show ?case
  proof (cases "v < 128")
    case True
    then have "bitlen v \<le> 7" using bitlen_le [of v 7] by simp
    then show ?thesis using True by (simp add: varuint_groups.simps)
  next
    case False
    have lt: "v div 128 < v" using False by simp
    have "bitlen v = 7 + bitlen (v div 2 ^ 7)" using False by (intro bitlen_shift) simp
    then have b: "bitlen v = 7 + bitlen (v div 128)" by simp
    have "0 < bitlen (v div 128)" using False by (intro bitlen_pos) simp
    then show ?thesis
      using less.IH [OF lt] False by (subst varuint_groups.simps) (simp add: b)
  qed
qed

lemma length_varuint_groups_le:
  assumes "v < 2 ^ 31" shows "length (varuint_groups v) \<le> 5"
proof -
  have "bitlen v \<le> 31" using assms by (rule bitlen_le)
  then show ?thesis by (simp add: length_varuint_groups)
qed

lemma varuint_groups_bits:
  "i < length (varuint_groups v) \<Longrightarrow>
   (varuint_groups v ! i AND 0x80 = 0 \<longleftrightarrow> Suc i = length (varuint_groups v)) \<and>
   unat (varuint_groups v ! i AND 0x7f) = v div 128 ^ i mod 128"
proof (induction v arbitrary: i rule: less_induct)
  case (less v)
  show ?case
  proof (cases "v < 128")
    case True
    have g: "varuint_groups v = [of_nat v]"
      using True by (simp add: varuint_groups.simps)
    have u: "unat (of_nat v :: byte) = v" using True by (rule unat_group_last)
    show ?thesis using less.prems True by (simp add: g byte_and_7f byte_and_80 u)
  next
    case False
    have lt: "v div 128 < v" using False by simp
    have g: "varuint_groups v = of_nat (v mod 128 + 128) # varuint_groups (v div 128)"
      using False by (subst varuint_groups.simps) simp
    have m: "unat ((of_nat (v mod 128 + 128) :: byte) AND 0x7f) = v mod 128"
      unfolding byte_and_7f unat_group_more by simp
    have h: "(of_nat (v mod 128 + 128) :: byte) AND 0x80 \<noteq> 0"
      unfolding byte_and_80 unat_group_more by simp
    have ne: "varuint_groups (v div 128) \<noteq> []"
      by (subst varuint_groups.simps) simp
    show ?thesis
    proof (cases i)
      case 0
      then show ?thesis using h m ne by (simp add: g)
    next
      case (Suc j)
      then have j: "j < length (varuint_groups (v div 128))" using less.prems by (simp add: g)
      have "v div 128 div 128 ^ j = v div 128 ^ Suc j" by (simp add: div_mult2_eq)
      then show ?thesis using less.IH [OF lt j] Suc by (simp add: g)
    qed
  qed
qed


lemma bitlen_1: "bitlen (Suc 0) = Suc 0"
  by (simp add: bitlen.simps)

lemma ToInt32_0: "ToInt32 0 = 0"
  by (simp add: ToInt32_def)

lemma writeVarUint_groups:
  assumes "stream_inv s" "0 \<le> v" "v < 2 ^ 31"
  shows "\<exists>s'. writeVarUint v s = Some (Inr (length (varuint_groups (nat v)), s')) \<and>
              stream_inv s' \<and>
              copyToWritable s' = copyToWritable s @ varuint_groups (nat v)"
proof -
  have "nat v < 2 ^ 31" using assms(2,3) by (simp add: nat_less_iff)
  from writeVarUint_loop_groups [OF assms(1) this, of 0] assms(2)
  show ?thesis by (auto simp: writeVarUint_def)
qed

text \<open>
  C2 (amended). For every \<open>v\<close> in \<open>[0, 2^31)\<close>, \<open>writeVarUint\<close> returns, having
  appended \<open>max 1 \<lceil>bitlen v / 7\<rceil>\<close> bytes (the ceiling written as \<open>(bitlen v + 6) div 7\<close>)
  and returning that count; reading them back gives \<open>v\<close> and leaves the rest of the
  stream; exactly the last byte has a clear high bit, and byte \<open>i\<close> carries the
  \<open>i\<close>-th 7-bit group counted from the least significant end.
\<close>

theorem writeVarUint_roundtrip:
  assumes "stream_inv s" "0 \<le> v" "v < 2 ^ 31"
  shows "\<exists>bs s'. writeVarUint v s = Some (Inr (length bs, s')) \<and>
           copyToWritable s' = copyToWritable s @ bs \<and>
           readVarUint (bs @ rest) = Inr (nat v, rest) \<and>
           length bs = max 1 ((bitlen (nat v) + 6) div 7) \<and>
           (\<forall>i < length bs.
              (bs ! i AND 0x80 = 0 \<longleftrightarrow> Suc i = length bs) \<and>
              unat (bs ! i AND 0x7f) = nat v div 128 ^ i mod 128)"
proof -
  let ?bs = "varuint_groups (nat v)"
  have lt: "nat v < 2 ^ 31" using assms(2,3) by (simp add: nat_less_iff)
  obtain s' where s': "writeVarUint v s = Some (Inr (length ?bs, s'))"
      "copyToWritable s' = copyToWritable s @ ?bs"
    using writeVarUint_groups [OF assms] by blast
  have "length ?bs \<le> 5" using lt by (rule length_varuint_groups_le)
  then have "0 + length ?bs \<le> 10" by simp
  then have r: "readVarUint (?bs @ rest) = Inr (nat v, rest)"
    unfolding readVarUint_def by (simp add: readVarUint_loop_groups)
  show ?thesis
    using s' r length_varuint_groups [of "nat v"] varuint_groups_bits [of _ "nat v"]
    by blast
qed

theorem writeVarUint_roundtrip_witness:
  "stream_inv new_FixedSizeBufStream \<and> (0::int) \<le> 300 \<and> (300::int) < 2 ^ 31 \<and>
   (\<exists>bs s'. writeVarUint 300 new_FixedSizeBufStream = Some (Inr (length bs, s')) \<and>
      copyToWritable s' = bs \<and> readVarUint bs = Inr (300, []) \<and> length bs = 2)"
proof -
  have b: "bitlen 300 = 9"
    using bitlen_shift [of 8 300] by (simp add: bitlen_1)
  show ?thesis
    using writeVarUint_roundtrip [of new_FixedSizeBufStream 300 "[]"]
    by (auto simp add: stream_inv_new copyToWritable_new b)
qed

lemma ToInt32_2_32: "ToInt32 4294967296 = 0"
  by (simp add: ToInt32_def)

lemma bitlen_2_32: "bitlen 4294967296 = 33"
  using bitlen_shift [of 32 4294967296] by (simp add: bitlen_1)

text \<open>
  C2 as stated fails above \<open>2^31\<close>: for \<open>v = 2^32\<close>, whose 32-bit image is 0, one
  zero byte is written, which reads back as 0, although \<open>v\<close> has 33 binary digits and
  would need 5 bytes.
\<close>

theorem writeVarUint_counterexample:
  "encode_varuint 4294967296 = Some (1, [0]) \<and> readVarUint [0] = Inr (0, []) \<and>
   (4294967296::int) < 2 ^ 64 \<and> nat 4294967296 \<noteq> 0 \<and>
   max 1 ((bitlen (nat 4294967296) + 6) div 7) = 5"
proof -
  have "writeVarUint_loop 4294967296 0 new_FixedSizeBufStream =
        Some (1, snd (writeByte 0 new_FixedSizeBufStream))"
    by (subst writeVarUint_loop.simps)
       (simp add: js_and_def js_sar_def js_or_def ToInt32_2_32 ToInt32_0 Let_def fst_writeByte)
  then have "encode_varuint 4294967296 = Some (1, [0])"
    by (simp add: encode_varuint_def writeVarUint_def copyToWritable_writeByte
        stream_inv_new copyToWritable_new ToUint8_def)
  moreover have "readVarUint [0] = Inr (0, [])"
    by (simp add: readVarUint_def)
  ultimately show ?thesis by (simp add: bitlen_2_32)
qed

section \<open>Doubles\<close>

lemma le_step:
  "ucast (ucast (drop_bit k w) :: byte) OR push_bit 8 (take_bit m (drop_bit (k + 8) w))
   = take_bit (m + 8) (drop_bit k (w::double))"
  apply (rule bit_word_eqI)
  apply (auto simp add: bit_simps)
  done

lemma float_of_bytes_float_bytes: "float_of_bytes (float_bytes f) = f"
proof -
  have s0: "float_of_bytes [ucast (drop_bit 56 f)] = take_bit 8 (drop_bit 56 f)"
    using le_step [of 56 f 0] by simp
  have s1: "float_of_bytes [ucast (drop_bit 48 f), ucast (drop_bit 56 f)]
            = take_bit 16 (drop_bit 48 f)"
    using le_step [of 48 f 8] s0 by simp
  have s2: "float_of_bytes [ucast (drop_bit 40 f), ucast (drop_bit 48 f), ucast (drop_bit 56 f)]
            = take_bit 24 (drop_bit 40 f)"
    using le_step [of 40 f 16] s1 by simp
  have s3: "float_of_bytes [ucast (drop_bit 32 f), ucast (drop_bit 40 f),
              ucast (drop_bit 48 f), ucast (drop_bit 56 f)]
            = take_bit 32 (drop_bit 32 f)"
    using le_step [of 32 f 24] s2 by simp
  have s4: "float_of_bytes [ucast (drop_bit 24 f), ucast (drop_bit 32 f), ucast (drop_bit 40 f),
              ucast (drop_bit 48 f), ucast (drop_bit 56 f)]
            = take_bit 40 (drop_bit 24 f)"
    using le_step [of 24 f 32] s3 by simp
  have s5: "float_of_bytes [ucast (drop_bit 16 f), ucast (drop_bit 24 f), ucast (drop_bit 32 f),
              ucast (drop_bit 40 f), ucast (drop_bit 48 f), ucast (drop_bit 56 f)]
            = take_bit 48 (drop_bit 16 f)"
    using le_step [of 16 f 40] s4 by simp
  have s6: "float_of_bytes [ucast (drop_bit 8 f), ucast (drop_bit 16 f), ucast (drop_bit 24 f),
              ucast (drop_bit 32 f), ucast (drop_bit 40 f), ucast (drop_bit 48 f),
              ucast (drop_bit 56 f)]
            = take_bit 56 (drop_bit 8 f)"
    using le_step [of 8 f 48] s5 by simp
  have s7: "float_of_bytes (float_bytes f) = take_bit 64 (drop_bit 0 f)"
    using le_step [of 0 f 56] s6 by (simp add: float_bytes_def)
  then show ?thesis by (simp add: take_bit_word_eq_self)
qed

lemma length_float_bytes: "length (float_bytes f) = 8"
  by (simp add: float_bytes_def)

lemma unat_byte_of: "unat (ucast (drop_bit k (f::double)) :: byte) = unat f div 2 ^ k mod 256"
  unfolding unsigned_ucast_eq unat_drop_bit_eq by (simp add: drop_bit_eq_div take_bit_eq_mod)

lemma float_bytes_nth:
  assumes "i < 8"
  shows "unat (float_bytes f ! i) = unat f div 256 ^ i mod 256"
proof -
  have p: "(256::nat) ^ i = 2 ^ (8 * i)" by (simp add: power_mult)
  from assms have "i = 0 \<or> i = 1 \<or> i = 2 \<or> i = 3 \<or> i = 4 \<or> i = 5 \<or> i = 6 \<or> i = 7"
    by arith
  then have "float_bytes f ! i = ucast (drop_bit (8 * i) f)"
    by (auto simp: float_bytes_def)
  then show ?thesis unfolding p by (simp only: unat_byte_of)
qed

lemma writeArray_loop_contents:
  "stream_inv s \<Longrightarrow>
   stream_inv (writeArray_loop bs s) \<and>
   copyToWritable (writeArray_loop bs s) = copyToWritable s @ map ToUint8 bs"
  by (induction bs arbitrary: s) (simp_all add: stream_inv_writeByte copyToWritable_writeByte)

lemma ToUint8_uint: "ToUint8 (uint (b::byte)) = b"
  by (simp add: ToUint8_def)

lemma writeFloat_contents:
  assumes "stream_inv s"
  shows "\<exists>s'. writeFloat nan f s = Inr (8, s') \<and> stream_inv s' \<and>
              copyToWritable s' = copyToWritable s @ float_bytes (stored_bits nan f)"
proof -
  let ?bs = "float_bytes (stored_bits nan f)"
  let ?xs = "[uint (?bs ! 0), uint (?bs ! 1), uint (?bs ! 2), uint (?bs ! 3),
              uint (?bs ! 4), uint (?bs ! 5), uint (?bs ! 6), uint (?bs ! 7)]"
  have m: "map ToUint8 ?xs = ?bs"
    by (simp add: float_bytes_def ToUint8_uint)
  have w: "writeFloat nan f s = Inr (8, writeArray_loop ?xs s)"
    by (simp add: writeFloat_def writeArray_def Let_def del: writeArray_loop.simps)
  show ?thesis
    using writeArray_loop_contents [OF assms, of ?xs] unfolding m w by blast
qed

lemma encode_float_bytes: "encode_float nan f = Inr (8, float_bytes (stored_bits nan f))"
  using writeFloat_contents [OF stream_inv_new, of nan f]
  by (auto simp: encode_float_def copyToWritable_new)

lemma decodeFloat_float_bytes:
  "decodeFloat (float_bytes f @ rest) = Inr (number_of_bits f, rest)"
  by (simp add: decodeFloat_def readBytes_def length_float_bytes float_of_bytes_float_bytes)

lemma bit_float_of_bytes:
  "bit (float_of_bytes bs) n \<longleftrightarrow>
     n < 64 \<and> n div 8 < length bs \<and> bit (bs ! (n div 8)) (n mod 8)"
proof (induction bs arbitrary: n)
  case Nil
  then show ?case by simp
next
  case (Cons b bs)
  show ?case
  proof (cases "n < 8")
    case True
    then show ?thesis by (simp add: bit_simps)
  next
    case False
    then have d: "n div 8 = Suc ((n - 8) div 8)" "n mod 8 = (n - 8) mod 8"
      by (simp_all add: le_div_geq le_mod_geq)
    have "bit (b::byte) n = False" using False bit_imp_le_length [of b n] by auto
    then show ?thesis using False Cons.IH [of "n - 8"] by (auto simp add: bit_simps d)
  qed
qed

lemma float_bytes_float_of_bytes:
  assumes "length bs = 8"
  shows "float_bytes (float_of_bytes bs) = bs"
proof -
  have c: "\<And>i. i < 8 \<Longrightarrow> (ucast (drop_bit (8 * i) (float_of_bytes bs)) :: byte) = bs ! i"
    subgoal for i
      apply (rule bit_word_eqI)
      using assms
      apply (simp add: bit_simps bit_float_of_bytes)
      done
    done
  have l: "length (float_bytes (float_of_bytes bs)) = length bs"
    using assms by (simp add: float_bytes_def)
  have "float_bytes (float_of_bytes bs) ! i = bs ! i" if "i < 8" for i
  proof -
    from that have "i = 0 \<or> i = 1 \<or> i = 2 \<or> i = 3 \<or> i = 4 \<or> i = 5 \<or> i = 6 \<or> i = 7"
      by arith
    then show ?thesis
      using c [of 0] c [of 1] c [of 2] c [of 3] c [of 4] c [of 5] c [of 6] c [of 7]
      by (auto simp: float_bytes_def)
  qed
  then show ?thesis using l assms by (simp add: list_eq_iff_nth_eq)
qed


lemma decodeFloat_reads_8:
  assumes "decodeFloat bs = Inr (g, rest')"
  shows "8 \<le> length bs \<and> rest' = drop 8 bs \<and> (\<forall>v. g = Num v \<longrightarrow> take 8 bs = float_bytes v)"
proof -
  from assms have l: "8 \<le> length bs" and g: "g = number_of_bits (float_of_bytes (take 8 bs))"
    and r: "rest' = drop 8 bs"
    by (auto simp: decodeFloat_def readBytes_def split: if_splits)
  have "float_bytes (float_of_bytes (take 8 bs)) = take 8 bs"
    using l by (intro float_bytes_float_of_bytes) simp
  then show ?thesis using l r g by (auto simp: number_of_bits_def split: if_splits)
qed

lemma float_bytes_nan1:
  "float_bytes 0x7ff8000000000001 = [1, 0, 0, 0, 0, 0, 0xf8, 0x7f]"
  by (simp add: float_bytes_def drop_bit_eq_div)

lemma float_bytes_nan0:
  "float_bytes 0x7ff8000000000000 = [0, 0, 0, 0, 0, 0, 0xf8, 0x7f]"
  by (simp add: float_bytes_def drop_bit_eq_div)

lemma float_bytes_one:
  "float_bytes 0x3ff0000000000000 = [0, 0, 0, 0, 0, 0, 0xf0, 0x3f]"
  by (simp add: float_bytes_def drop_bit_eq_div)

lemma is_NaN_nan1: "is_NaN 0x7ff8000000000001"
  by (simp add: is_NaN_def drop_bit_eq_div take_bit_eq_mod)

lemma is_NaN_nan0: "is_NaN 0x7ff8000000000000"
  by (simp add: is_NaN_def drop_bit_eq_div take_bit_eq_mod)

lemma not_NaN_one: "\<not> is_NaN 0x3ff0000000000000"
  by (simp add: is_NaN_def drop_bit_eq_div take_bit_eq_mod)

text \<open>
  C9 as stated fails for NaN. A number that is NaN has no payload of its own: the bytes
  \<open>writeFloat\<close> appends for it are those of the pattern the engine stores into the
  \<open>Float64Array\<close>. Written by an engine that stores \<open>0x7ff8000000000001\<close>, the eight
  bytes decode to NaN, and an engine that stores \<open>0x7ff8000000000000\<close> encodes that
  number again with another first byte.
\<close>

theorem float_nan_counterexample:
  "is_NaN 0x7ff8000000000001 \<and> is_NaN 0x7ff8000000000000 \<and>
   encode_float 0x7ff8000000000001 NaN = Inr (8, [1, 0, 0, 0, 0, 0, 0xf8, 0x7f]) \<and>
   decodeFloat [1, 0, 0, 0, 0, 0, 0xf8, 0x7f] = Inr (NaN, []) \<and>
   encode_float 0x7ff8000000000000 NaN = Inr (8, [0, 0, 0, 0, 0, 0, 0xf8, 0x7f])"
proof -
  have "decodeFloat (float_bytes 0x7ff8000000000001 @ []) = Inr (NaN, [])"
    unfolding decodeFloat_float_bytes by (simp add: number_of_bits_def is_NaN_nan1)
  then show ?thesis
    by (simp add: is_NaN_nan1 is_NaN_nan0 encode_float_bytes stored_bits_def
        float_bytes_nan1 float_bytes_nan0)
qed

text \<open>
  C9, amended. A number other than NaN is written by \<open>writeFloat\<close> as exactly 8 bytes,
  byte \<open>i\<close> holding bits \<open>8i .. 8i+7\<close> of its pattern (little-endian), whatever the
  engine stores for NaN; \<open>decodeFloat\<close> takes exactly 8 bytes and gives the number
  back, so that encoding what was decoded gives the same 8 bytes again. NaN is written
  as the 8 bytes of the engine's NaN pattern and decodes to NaN. Whatever
  \<open>decodeFloat\<close> returns, it has read exactly 8 bytes, and a number other than NaN
  that it returns has those bytes as its pattern.
\<close>

theorem float_roundtrip:
  "(\<not> is_NaN w \<longrightarrow>
      encode_float nan (Num w) = Inr (8, float_bytes w) \<and>
      (stream_inv s \<longrightarrow>
         (\<exists>s'. writeFloat nan (Num w) s = Inr (8, s') \<and>
               copyToWritable s' = copyToWritable s @ float_bytes w)) \<and>
      decodeFloat (float_bytes w @ rest) = Inr (Num w, rest) \<and>
      encode_float nan' (Num w) = encode_float nan (Num w)) \<and>
   length (float_bytes w) = 8 \<and>
   (\<forall>i<8. unat (float_bytes w ! i) = unat w div 256 ^ i mod 256) \<and>
   (is_NaN nan \<longrightarrow>
      encode_float nan NaN = Inr (8, float_bytes nan) \<and>
      decodeFloat (float_bytes nan @ rest) = Inr (NaN, rest)) \<and>
   (\<forall>g rest'. decodeFloat bs = Inr (g, rest') \<longrightarrow>
      8 \<le> length bs \<and> rest' = drop 8 bs \<and> (\<forall>v. g = Num v \<longrightarrow> take 8 bs = float_bytes v))"
proof -
  have a: "\<not> is_NaN w \<longrightarrow>
      encode_float nan (Num w) = Inr (8, float_bytes w) \<and>
      (stream_inv s \<longrightarrow>
         (\<exists>s'. writeFloat nan (Num w) s = Inr (8, s') \<and>
               copyToWritable s' = copyToWritable s @ float_bytes w)) \<and>
      decodeFloat (float_bytes w @ rest) = Inr (Num w, rest) \<and>
      encode_float nan' (Num w) = encode_float nan (Num w)"
    using writeFloat_contents [of s nan "Num w"]
    by (auto simp: encode_float_bytes stored_bits_def decodeFloat_float_bytes number_of_bits_def)
  have b: "length (float_bytes w) = 8"
    by (rule length_float_bytes)
  have c: "\<forall>i<8. unat (float_bytes w ! i) = unat w div 256 ^ i mod 256"
    by (simp add: float_bytes_nth)
  have d: "is_NaN nan \<longrightarrow>
      encode_float nan NaN = Inr (8, float_bytes nan) \<and>
      decodeFloat (float_bytes nan @ rest) = Inr (NaN, rest)"
    by (simp add: encode_float_bytes stored_bits_def decodeFloat_float_bytes number_of_bits_def)
  have e: "\<forall>g rest'. decodeFloat bs = Inr (g, rest') \<longrightarrow>
      8 \<le> length bs \<and> rest' = drop 8 bs \<and> (\<forall>v. g = Num v \<longrightarrow> take 8 bs = float_bytes v)"
    using decodeFloat_reads_8 [of bs] by blast
  show ?thesis using a b c d e by blast
qed

theorem float_roundtrip_witness:
  "\<not> is_NaN 0x3ff0000000000000 \<and> is_NaN 0x7ff8000000000000 \<and>
   stream_inv new_FixedSizeBufStream \<and>
   encode_float 0x7ff8000000000000 (Num 0x3ff0000000000000)
     = Inr (8, [0, 0, 0, 0, 0, 0, 0xf0, 0x3f]) \<and>
   decodeFloat [0, 0, 0, 0, 0, 0, 0xf0, 0x3f] = Inr (Num 0x3ff0000000000000, []) \<and>
   encode_float 0x7ff8000000000001 (Num 0x3ff0000000000000)
     = Inr (8, [0, 0, 0, 0, 0, 0, 0xf0, 0x3f]) \<and>
   unat ([0, 0, 0, 0, 0, 0, 0xf0, 0x3f :: byte] ! 6)
     = unat (0x3ff0000000000000 :: double) div 256 ^ 6 mod 256 \<and>
   decodeFloat [0, 0, 0, 0, 0, 0, 0xf8, 0x7f] = Inr (NaN, [])"
  using float_roundtrip [of "0x3ff0000000000000" "0x7ff8000000000000" new_FixedSizeBufStream "[]"
      "0x7ff8000000000001" "[0, 0, 0, 0, 0, 0, 0xf0, 0x3f]"]
  by (simp add: float_bytes_one float_bytes_nan0 not_NaN_one is_NaN_nan0 stream_inv_new)

section \<open>The grammar recoverer\<close>

lemma shallowEquals_iff: "shallowEquals xs ys \<longleftrightarrow> xs = ys"
  by (auto simp: shallowEquals_def list_eq_iff_nth_eq)

lemma map_insort_key: "map f (insort_key f x xs) = insort (f x) (map f xs)"
  by (induction xs) auto

lemma map_sort_key: "map f (sort_key f xs) = sort (map f xs)"
  by (induction xs) (auto simp: map_insort_key)

lemma map_fst_own_props: "map fst (own_props flds) = shape flds"
  by (simp add: own_props_def shape_def map_sort_key filter_map comp_def)

lemma set_own_props:
  "set (own_props flds) = {p \<in> set flds. fst p \<noteq> ''type''}"
  by (auto simp: own_props_def)

lemma rules_get_set:
  "rules_get (rules_set r k p) k' = (if k' = k then Some p else rules_get r k')"
  by (induction r k p rule: rules_set.induct) (auto simp: rules_get_def)

lemma rules_member_Props: "rules_member r kind = Props p \<longleftrightarrow> rules_get r kind = Some p"
  by (auto simp: rules_member_def rules_get_def split: option.splits)

lemma rules_member_ordinary:
  "ordinary kind \<Longrightarrow>
   rules_member r kind = (case rules_get r kind of None \<Rightarrow> Absent | Some p \<Rightarrow> Props p)"
  by (simp add: rules_member_def rules_get_def ordinary_def split: option.splits)

lemma visit_obj_step:
  "visit r (VObj kind flds) =
     (if kind = [] then
        (if stringify_throws (VObj kind flds) then Inl TypeError else Inl NotTypedNode)
      else case rules_member r kind of
             Absent \<Rightarrow> visit_each (rules_set r kind (shape flds)) (map snd (own_props flds))
           | Props expected \<Rightarrow>
               if expected = shape flds
               then visit_each (rules_set r kind (shape flds)) (map snd (own_props flds))
               else Inl (InconsistentShape kind expected (shape flds))
           | Inherited \<Rightarrow> Inl ShallowObjectCompare
           | Size \<Rightarrow> Inl TypeError)"
  by (auto simp: Let_def map_fst_own_props shallowEquals_iff simp del: stringify_throws.simps
      split: member.splits)

lemma visit_obj_success:
  assumes "visit r (VObj kind flds) = Inr r'"
  shows "kind \<noteq> []"
    and "visit_each (rules_set r kind (shape flds)) (map snd (own_props flds)) = Inr r'"
    and "rules_member r kind = Absent \<or> rules_member r kind = Props (shape flds)"
  using assms unfolding visit_obj_step by (auto split: member.splits if_splits)

lemma visit_mono:
  "visit r v = Inr r' \<Longrightarrow> rules_get r k = Some s \<Longrightarrow> rules_get r' k = Some s"
  and visit_each_mono:
  "visit_each r vs = Inr r' \<Longrightarrow> rules_get r k = Some s \<Longrightarrow> rules_get r' k = Some s"
proof (induction r v and r vs arbitrary: r' and r' rule: visit_visit_each.induct)
  case (2 r kind flds)
  let ?props = "map fst (own_props flds)"
  let ?r1 = "rules_set r kind ?props"
  from visit_obj_success [OF "2.prems"(1)] have k: "kind \<noteq> []"
    and e: "visit_each ?r1 (map snd (own_props flds)) = Inr r'"
    and c: "rules_member r kind = Absent \<or> rules_member r kind = Props ?props"
    by (simp_all add: map_fst_own_props)
  have "k = kind \<longrightarrow> s = ?props"
    using c "2.prems"(2)
    by (auto simp: rules_member_def rules_get_def split: option.splits if_splits)
  then have g: "rules_get ?r1 k = Some s"
    using "2.prems"(2) by (simp add: rules_get_set)
  from c show ?case
  proof
    assume n: "rules_member r kind = Absent"
    show ?thesis by (rule "2.IH"(1) [OF k refl n e g])
  next
    assume n: "rules_member r kind = Props ?props"
    have ne: "\<not> \<not> shallowEquals ?props ?props" by (simp add: shallowEquals_iff)
    show ?thesis by (rule "2.IH"(2) [OF k refl n ne e g])
  qed
qed (auto split: sum.splits)

lemma visit_each_elem:
  "visit_each r xs = Inr r' \<Longrightarrow> x \<in> set xs \<Longrightarrow>
   \<exists>r1 r2. visit r1 x = Inr r2 \<and> (\<forall>k s. rules_get r2 k = Some s \<longrightarrow> rules_get r' k = Some s)"
proof (induction xs arbitrary: r)
  case Nil
  then show ?case by simp
next
  case (Cons y ys)
  from Cons.prems(1) obtain r1 where y: "visit r y = Inr r1" and ys: "visit_each r1 ys = Inr r'"
    by (auto split: sum.splits)
  show ?case
  proof (cases "x = y")
    case True
    then show ?thesis using y ys visit_each_mono by blast
  next
    case False
    then have "x \<in> set ys" using Cons.prems(2) by simp
    then show ?thesis using Cons.IH [OF ys] by blast
  qed
qed

lemma visit_reaches:
  "reaches v w \<Longrightarrow> visit r v = Inr r' \<Longrightarrow>
   w \<noteq> VSymbol \<and> (\<forall>n. w \<noteq> VBigInt n) \<and>
   (\<forall>kind flds. w = VObj kind flds \<longrightarrow> kind \<noteq> [] \<and> rules_get r' kind = Some (shape flds))"
proof (induction arbitrary: r r' rule: reaches.induct)
  case (reaches_self v)
  show ?case
  proof (cases v)
    case (VObj kind flds)
    from visit_obj_success [OF reaches_self [unfolded VObj]] have k: "kind \<noteq> []"
      and e: "visit_each (rules_set r kind (shape flds)) (map snd (own_props flds)) = Inr r'"
      by simp_all
    have "rules_get (rules_set r kind (shape flds)) kind = Some (shape flds)"
      by (simp add: rules_get_set)
    with e have "rules_get r' kind = Some (shape flds)" by (rule visit_each_mono)
    then show ?thesis using k VObj by simp
  qed (use reaches_self in auto)
next
  case (reaches_elem x xs w)
  from reaches_elem.prems have "visit_each r xs = Inr r'" by simp
  from visit_each_elem [OF this reaches_elem.hyps(1)]
  obtain r1 r2 where "visit r1 x = Inr r2"
    and m: "\<forall>k s. rules_get r2 k = Some s \<longrightarrow> rules_get r' k = Some s" by blast
  from reaches_elem.IH [OF this(1)] m show ?case by blast
next
  case (reaches_prop name x flds w kind)
  from visit_obj_success(2) [OF reaches_prop.prems] have
    e: "visit_each (rules_set r kind (shape flds)) (map snd (own_props flds)) = Inr r'" .
  have "(name, x) \<in> set (own_props flds)"
    using reaches_prop.hyps(1,2) by (simp add: set_own_props)
  then have "x \<in> set (map snd (own_props flds))" by force
  from visit_each_elem [OF e this]
  obtain r1 r2 where "visit r1 x = Inr r2"
    and m: "\<forall>k s. rules_get r2 k = Some s \<longrightarrow> rules_get r' k = Some s" by blast
  from reaches_prop.IH [OF this(1)] m show ?case by blast
qed

lemma visit_error_cases:
  "visit r v = Inl e \<Longrightarrow> \<exists>w. reaches v w \<and> failure_at w e"
  and visit_each_error_cases:
  "visit_each r vs = Inl e \<Longrightarrow> \<exists>v \<in> set vs. \<exists>w. reaches v w \<and> failure_at w e"
proof (induction r v and r vs arbitrary: e and e rule: visit_visit_each.induct)
  case (1 r xs)
  from "1.prems" have "visit_each r xs = Inl e" by simp
  from "1.IH" [OF this] obtain v w where "v \<in> set xs" "reaches v w" "failure_at w e" by blast
  then show ?case using reaches_elem by blast
next
  case (2 r kind flds)
  have self: "reaches (VObj kind flds) (VObj kind flds)" by (rule reaches_self)
  show ?case
  proof (cases "kind = []")
    case True
    with "2.prems" have "e = TypeError \<or> e = NotTypedNode"
      unfolding visit_obj_step by (auto split: if_splits)
    then have "failure_at (VObj kind flds) e" using True by auto
    then show ?thesis using self by blast
  next
    case k: False
    let ?props = "map fst (own_props flds)"
    let ?r1 = "rules_set r kind ?props"
    have lift: "\<exists>w. reaches (VObj kind flds) w \<and> failure_at w e"
      if "\<exists>v \<in> set (map snd (own_props flds)). \<exists>w. reaches v w \<and> failure_at w e"
    proof -
      from that obtain name v w where "(name, v) \<in> set (own_props flds)" "reaches v w"
        "failure_at w e" by auto
      then show ?thesis by (auto simp: set_own_props intro: reaches_prop)
    qed
    show ?thesis
    proof (cases "rules_member r kind")
      case Absent
      with k "2.prems" have e: "visit_each ?r1 (map snd (own_props flds)) = Inl e"
        unfolding visit_obj_step by (simp add: map_fst_own_props)
      from "2.IH"(1) [OF k refl Absent e] show ?thesis by (rule lift)
    next
      case (Props expected)
      show ?thesis
      proof (cases "expected = shape flds")
        case True
        then have n: "rules_member r kind = Props ?props"
          using Props by (simp add: map_fst_own_props)
        have ne: "\<not> \<not> shallowEquals ?props ?props" by (simp add: shallowEquals_iff)
        from k "2.prems" Props True have e: "visit_each ?r1 (map snd (own_props flds)) = Inl e"
          unfolding visit_obj_step by (simp add: map_fst_own_props)
        from "2.IH"(2) [OF k refl n ne e] show ?thesis by (rule lift)
      next
        case False
        then have "e = InconsistentShape kind expected (shape flds)"
          using k Props "2.prems" unfolding visit_obj_step by simp
        then have "failure_at (VObj kind flds) e" using False by simp
        then show ?thesis using self by blast
      qed
    next
      case Inherited
      then have i: "kind \<in> set inherited_names"
        by (auto simp: rules_member_def split: option.splits if_splits)
      from Inherited k "2.prems" have "e = ShallowObjectCompare"
        unfolding visit_obj_step by simp
      then have "failure_at (VObj kind flds) e" using i by simp
      then show ?thesis using self by blast
    next
      case Size
      then have i: "kind = ''size''"
        by (auto simp: rules_member_def split: option.splits if_splits)
      from Size k "2.prems" have "e = TypeError"
        unfolding visit_obj_step by simp
      then have "failure_at (VObj kind flds) e" using i by simp
      then show ?thesis using self by blast
    qed
  qed
next
  case (3 r)
  then have "failure_at VSymbol e" by auto
  then show ?case using reaches_self by blast
next
  case (4 r n)
  then have "failure_at (VBigInt n) e" by auto
  then show ?case using reaches_self by blast
next
  case (7 r x xs)
  show ?case
  proof (cases "visit r x")
    case (Inl e')
    then have "e' = e" using "7.prems" by simp
    with "7.IH"(1) Inl show ?thesis by auto
  next
    case (Inr r1)
    then have "visit_each r1 xs = Inl e" using "7.prems" by simp
    from "7.IH"(2) [OF Inr this] show ?thesis by auto
  qed
qed auto

text \<open>
  What \<open>visit\<close> does wherever the kinds are ordinary. For a node it takes the
  constructor's name as kind, sorts the own property names without \<open>type\<close>, and
  installs that list for the kind or compares it with the installed one, failing with
  \<open>InconsistentShape\<close> on a difference. After a successful visit every node reached
  has its sorted names installed under its kind; two reached nodes of one kind with
  different names make the visit fail, with \<open>InconsistentShape\<close> when nothing else is
  wrong; a reached symbol or big integer makes it fail, and \<open>UnsupportedPrimitive\<close>
  is raised only for a big integer.
\<close>

lemma visit_ordinary_kinds:
  "(ordinary kind \<longrightarrow>
    visit r (VObj kind flds) =
     (if kind = [] then
        (if stringify_throws (VObj kind flds) then Inl TypeError else Inl NotTypedNode)
      else case rules_get r kind of
             None \<Rightarrow> visit_each (rules_set r kind (shape flds)) (map snd (own_props flds))
           | Some expected \<Rightarrow>
               if expected = shape flds
               then visit_each (rules_set r kind (shape flds)) (map snd (own_props flds))
               else Inl (InconsistentShape kind expected (shape flds)))) \<and>
   (\<forall>r'. visit r v = Inr r' \<longrightarrow>
      (\<forall>k f. reaches v (VObj k f) \<longrightarrow> rules_get r' k = Some (shape f))) \<and>
   (reaches v (VObj k f1) \<and> reaches v (VObj k f2) \<and> shape f1 \<noteq> shape f2 \<longrightarrow>
      (\<exists>e. visit r v = Inl e)) \<and>
   (reaches v (VObj k f1) \<and> reaches v (VObj k f2) \<and> shape f1 \<noteq> shape f2 \<and>
    \<not> reaches v VSymbol \<and> (\<forall>n. \<not> reaches v (VBigInt n)) \<and>
    (\<forall>k' f. reaches v (VObj k' f) \<longrightarrow> k' \<noteq> [] \<and> ordinary k') \<longrightarrow>
      (\<exists>k' expected actual. visit r v = Inl (InconsistentShape k' expected actual) \<and>
          expected \<noteq> actual)) \<and>
   (reaches v VSymbol \<or> reaches v (VBigInt n) \<longrightarrow> (\<exists>e. visit r v = Inl e)) \<and>
   visit r VSymbol = Inl TypeError \<and>
   visit r (VBigInt n) = Inl UnsupportedPrimitive \<and>
   (visit r v = Inl UnsupportedPrimitive \<longrightarrow> (\<exists>m. reaches v (VBigInt m)))"
proof -
  have fails: "\<exists>e. visit r v = Inl e"
    if "reaches v (VObj k f1)" "reaches v (VObj k f2)" "shape f1 \<noteq> shape f2"
  proof (cases "visit r v")
    case (Inr r')
    from visit_reaches [OF that(1) Inr] visit_reaches [OF that(2) Inr] that(3)
    show ?thesis by simp
  qed simp
  have sym: "\<exists>e. visit r v = Inl e" if "reaches v VSymbol \<or> reaches v (VBigInt n)"
  proof (cases "visit r v")
    case (Inr r')
    from that visit_reaches [of v VSymbol r r'] visit_reaches [of v "VBigInt n" r r'] Inr
    show ?thesis by auto
  qed simp
  have shape_err: "\<exists>k' expected actual. visit r v = Inl (InconsistentShape k' expected actual) \<and>
          expected \<noteq> actual"
    if "reaches v (VObj k f1)" "reaches v (VObj k f2)" "shape f1 \<noteq> shape f2"
       "\<not> reaches v VSymbol" "\<forall>n. \<not> reaches v (VBigInt n)"
       "\<forall>k' f. reaches v (VObj k' f) \<longrightarrow> k' \<noteq> [] \<and> ordinary k'"
  proof -
    from fails [OF that(1-3)] obtain e where e: "visit r v = Inl e" by blast
    from visit_error_cases [OF e] obtain w where w: "reaches v w" "failure_at w e" by blast
    from w that(4,5) obtain k' f where o: "w = VObj k' f"
      by (cases w) auto
    with w(1) that(6) have "k' \<noteq> []" "k' \<noteq> ''size''" "k' \<notin> set inherited_names"
      unfolding ordinary_def by blast+
    with w(2) o have "\<exists>expected actual. e = InconsistentShape k' expected actual \<and>
        expected \<noteq> actual"
      by (cases e) auto
    then show ?thesis using e by blast
  qed
  have unsup: "\<exists>m. reaches v (VBigInt m)" if "visit r v = Inl UnsupportedPrimitive"
  proof -
    from visit_error_cases [OF that] obtain w where
      w: "reaches v w" "failure_at w UnsupportedPrimitive" by blast
    from w(2) obtain m where "w = VBigInt m" by (cases w) auto
    with w(1) show ?thesis by blast
  qed
  have step: "ordinary kind \<longrightarrow>
    visit r (VObj kind flds) =
     (if kind = [] then
        (if stringify_throws (VObj kind flds) then Inl TypeError else Inl NotTypedNode)
      else case rules_get r kind of
             None \<Rightarrow> visit_each (rules_set r kind (shape flds)) (map snd (own_props flds))
           | Some expected \<Rightarrow>
               if expected = shape flds
               then visit_each (rules_set r kind (shape flds)) (map snd (own_props flds))
               else Inl (InconsistentShape kind expected (shape flds)))"
    unfolding visit_obj_step by (auto simp: rules_member_ordinary split: option.splits)
  have inst: "\<forall>r'. visit r v = Inr r' \<longrightarrow>
      (\<forall>k f. reaches v (VObj k f) \<longrightarrow> rules_get r' k = Some (shape f))"
    using visit_reaches [of v _ r] by blast
  have prim: "visit r VSymbol = Inl TypeError" "visit r (VBigInt n) = Inl UnsupportedPrimitive"
    by simp_all
  from step inst prim fails sym shape_err unsup show ?thesis by blast
qed

inductive_simps reaches_VNull: "reaches VNull w"
inductive_simps reaches_VList: "reaches (VList xs) w"
inductive_simps reaches_VObj: "reaches (VObj k f) w"

lemma shape_x: "shape [(''x'', VNull)] = [''x'']"
  by (simp add: shape_def)

lemma shape_y: "shape [(''y'', VNull)] = [''y'']"
  by (simp add: shape_def)

lemma own_props_x: "own_props [(''x'', VNull)] = [(''x'', VNull)]"
  by (simp add: own_props_def)

lemma own_props_y: "own_props [(''y'', VNull)] = [(''y'', VNull)]"
  by (simp add: own_props_def)

lemma visit_two_shapes:
  "visit [] (VList [VObj ''A'' [(''x'', VNull)], VObj ''A'' [(''y'', VNull)]])
     = Inl (InconsistentShape ''A'' [''x''] [''y'']) \<and>
   visit [] (VList [VObj ''A'' [(''x'', VNull)], VObj ''A'' [(''x'', VNull)]])
     = Inr [(''A'', [''x''])]"
  by (simp add: own_props_x own_props_y rules_member_def inherited_names_def shallowEquals_iff)

text \<open>
  C4. The claim is what a recoverer of grammars has to do, and \<open>visit\<close> does not do it
  for every node: its rules are a \<open>Map\<close> that it reads and writes as properties. On the
  first node of kind \<open>has\<close>, one without a property, \<open>this.rules[kind]\<close> finds
  \<open>Map.prototype.has\<close>; the node's list is neither installed nor compared with an
  installed one, and the visit fails in \<open>shallowEquals\<close> although no two nodes differ
  in shape. On a symbol, a value of none of the supported primitive classes, the visit
  fails with a \<open>TypeError\<close> while it makes the message of the error it means to
  throw.
\<close>

theorem visit_inherited_member:
  "visit [] (VObj ''has'' []) = Inl ShallowObjectCompare \<and>
   rules_get [] ''has'' = None \<and>
   visit [] (VObj ''Has'' []) = Inr [(''Has'', [])] \<and>
   visit [] VSymbol = Inl TypeError \<and>
   visit [] (VBigInt 1) = Inl UnsupportedPrimitive"
  by (simp add: rules_member_def inherited_names_def rules_get_def own_props_def)

section \<open>Arrays as cons chains\<close>

lemma build_elems_threads:
  "build_elems a xs = Inr (t, a') \<longleftrightarrow>
     (\<exists>cs as. length cs = length xs \<and> length as = Suc (length xs) \<and>
        as ! length xs = a \<and> as ! 0 = a' \<and>
        (\<forall>i<length xs. build (as ! Suc i) (xs ! i) = Inr (cs ! i, as ! i)) \<and>
        t = foldr (\<lambda>c r. Node t_cons [c, r]) cs (Node t_nil []))"
proof (induction xs arbitrary: t a')
  case Nil
  show ?case
  proof
    assume "build_elems a [] = Inr (t, a')"
    then have "t = Node t_nil []" "a' = a" by simp_all
    then show "\<exists>cs as. length cs = length ([]::jsvalue list) \<and> length as = Suc (length ([]::jsvalue list)) \<and>
        as ! length ([]::jsvalue list) = a \<and> as ! 0 = a' \<and>
        (\<forall>i<length ([]::jsvalue list). build (as ! Suc i) ([] ! i) = Inr (cs ! i, as ! i)) \<and>
        t = foldr (\<lambda>c r. Node t_cons [c, r]) cs (Node t_nil [])"
      by (intro exI [of _ "[]"] exI [of _ "[a]"]) simp
  next
    assume "\<exists>cs as. length cs = length ([]::jsvalue list) \<and> length as = Suc (length ([]::jsvalue list)) \<and>
        as ! length ([]::jsvalue list) = a \<and> as ! 0 = a' \<and>
        (\<forall>i<length ([]::jsvalue list). build (as ! Suc i) ([] ! i) = Inr (cs ! i, as ! i)) \<and>
        t = foldr (\<lambda>c r. Node t_cons [c, r]) cs (Node t_nil [])"
    then show "build_elems a [] = Inr (t, a')" by auto
  qed
next
  case (Cons x xs)
  show ?case
  proof
    assume "build_elems a (x # xs) = Inr (t, a')"
    then obtain result a1 c where r: "build_elems a xs = Inr (result, a1)"
      and c: "build a1 x = Inr (c, a')" and t: "t = Node t_cons [c, result]"
      by (auto split: sum.splits)
    from r Cons.IH [of result a1] obtain cs as where
      IH: "length cs = length xs" "length as = Suc (length xs)"
        "as ! length xs = a" "as ! 0 = a1"
        "\<forall>i<length xs. build (as ! Suc i) (xs ! i) = Inr (cs ! i, as ! i)"
        "result = foldr (\<lambda>c r. Node t_cons [c, r]) cs (Node t_nil [])"
      by blast
    have "\<forall>i<length (x # xs). build ((a' # as) ! Suc i) ((x # xs) ! i) = Inr ((c # cs) ! i, (a' # as) ! i)"
      using IH(4,5) c by (auto simp: nth_Cons split: nat.splits)
    then show "\<exists>cs as. length cs = length (x # xs) \<and> length as = Suc (length (x # xs)) \<and>
        as ! length (x # xs) = a \<and> as ! 0 = a' \<and>
        (\<forall>i<length (x # xs). build (as ! Suc i) ((x # xs) ! i) = Inr (cs ! i, as ! i)) \<and>
        t = foldr (\<lambda>c r. Node t_cons [c, r]) cs (Node t_nil [])"
      using IH(1,2,3,6) t
      by (intro exI [of _ "c # cs"] exI [of _ "a' # as"]) simp
  next
    assume "\<exists>cs as. length cs = length (x # xs) \<and> length as = Suc (length (x # xs)) \<and>
        as ! length (x # xs) = a \<and> as ! 0 = a' \<and>
        (\<forall>i<length (x # xs). build (as ! Suc i) ((x # xs) ! i) = Inr (cs ! i, as ! i)) \<and>
        t = foldr (\<lambda>c r. Node t_cons [c, r]) cs (Node t_nil [])"
    then obtain cs as where
      H: "length cs = Suc (length xs)" "length as = Suc (Suc (length xs))"
        "as ! Suc (length xs) = a" "as ! 0 = a'"
        "\<forall>i<Suc (length xs). build (as ! Suc i) ((x # xs) ! i) = Inr (cs ! i, as ! i)"
        "t = foldr (\<lambda>c r. Node t_cons [c, r]) cs (Node t_nil [])"
      by auto
    from H(1) obtain c cs' where cs: "cs = c # cs'" by (cases cs) auto
    from H(2) obtain a0 as' where as: "as = a0 # as'" by (cases as) auto
    have "\<forall>i<length xs. build (as' ! Suc i) (xs ! i) = Inr (cs' ! i, as' ! i)"
      using H(5) unfolding cs as by (metis Suc_less_eq nth_Cons_Suc)
    then have "build_elems a xs = Inr (foldr (\<lambda>c r. Node t_cons [c, r]) cs' (Node t_nil []), as' ! 0)"
      using Cons.IH [of "foldr (\<lambda>c r. Node t_cons [c, r]) cs' (Node t_nil [])" "as' ! 0"]
        H(1,2,3) unfolding cs as by auto
    moreover have "build (as' ! 0) x = Inr (c, a')"
      using H(5) H(4) unfolding cs as by auto
    ultimately show "build_elems a (x # xs) = Inr (t, a')"
      using H(6) unfolding cs by simp
  qed
qed


text \<open>
  C6. An array becomes the right fold of \<open>cons\<close> over the trees of its elements,
  ending in \<open>nil\<close>: \<open>cons\<close> has rank 2, its first child is the element's tree and its
  second the rest of the chain; the empty array is the single \<open>nil\<close> leaf. The tree of
  element \<open>i\<close> is what \<open>build\<close> makes of it in the state left by the elements after
  it, since the loop runs from the last element to the first.
\<close>

theorem build_list_right_fold:
  "build a (VList []) = Inr (Node t_nil [], a) \<and>
   rank t_cons = 2 \<and> rank t_nil = 0 \<and>
   (build a (VList xs) = Inr (t, a') \<longleftrightarrow>
     (\<exists>cs as. length cs = length xs \<and> length as = Suc (length xs) \<and>
        as ! length xs = a \<and> as ! 0 = a' \<and>
        (\<forall>i<length xs. build (as ! Suc i) (xs ! i) = Inr (cs ! i, as ! i)) \<and>
        t = foldr (\<lambda>c r. Node t_cons [c, r]) cs (Node t_nil [])))"
  using build_elems_threads [of a xs t a'] by (simp add: t_cons_def t_nil_def)

theorem build_list_right_fold_witness:
  "build (new_TreeRePairApplicator []) (VList [VBool True, VNull]) =
     Inr (Node t_cons [Node t_true [], Node t_cons [Node t_null [], Node t_nil []]],
          new_TreeRePairApplicator []) \<and>
   (\<exists>cs as. length cs = length [VBool True, VNull] \<and>
      length as = Suc (length [VBool True, VNull]) \<and>
      as ! length [VBool True, VNull] = new_TreeRePairApplicator [] \<and>
      as ! 0 = new_TreeRePairApplicator [] \<and>
      build (as ! Suc 0) ([VBool True, VNull] ! 0) = Inr (cs ! 0, as ! 0) \<and>
      build (as ! Suc 1) ([VBool True, VNull] ! 1) = Inr (cs ! 1, as ! 1) \<and>
      Node t_cons [Node t_true [], Node t_cons [Node t_null [], Node t_nil []]] =
        foldr (\<lambda>c r. Node t_cons [c, r]) cs (Node t_nil []))"
proof -
  let ?a = "new_TreeRePairApplicator []"
  let ?t = "Node t_cons [Node t_true [], Node t_cons [Node t_null [], Node t_nil []]]"
  let ?xs = "[VBool True, VNull]"
  have e: "build ?a (VList ?xs) = Inr (?t, ?a)" by simp
  have l: "0 < length ?xs" "1 < length ?xs" by simp_all
  from build_list_right_fold [of ?a ?xs ?t ?a] e
  obtain cs as where h: "length cs = length ?xs" "length as = Suc (length ?xs)"
    "as ! length ?xs = ?a" "as ! 0 = ?a"
    "\<forall>i<length ?xs. build (as ! Suc i) (?xs ! i) = Inr (cs ! i, as ! i)"
    "?t = foldr (\<lambda>c r. Node t_cons [c, r]) cs (Node t_nil [])"
    by blast
  from h(5) l have "build (as ! Suc 0) (?xs ! 0) = Inr (cs ! 0, as ! 0)"
    "build (as ! Suc 1) (?xs ! 1) = Inr (cs ! 1, as ! 1)"
    by blast+
  with h(1-4,6) e show ?thesis by blast
qed


section \<open>Replay of buffered trees\<close>

lemma replay_actuals_fuel_step:
  assumes "\<And>tree actuals r. replay_tree f T tree actuals = Some r \<Longrightarrow>
             replay_tree (Suc f) T tree actuals = Some r"
  shows "replay_actuals f T k tree actuals = Some r \<Longrightarrow>
         replay_actuals (Suc f) T k tree actuals = Some r"
proof (induction k arbitrary: tree r)
  case 0
  then show ?case by simp
next
  case (Suc k)
  then show ?case
    by (auto split: option.splits sum.splits dest!: assms)
qed

lemma replay_props_fuel_step:
  assumes "\<And>tree actuals r. replay_tree f T tree actuals = Some r \<Longrightarrow>
             replay_tree (Suc f) T tree actuals = Some r"
  shows "replay_props f T ps tree actuals = Some r \<Longrightarrow>
         replay_props (Suc f) T ps tree actuals = Some r"
proof (induction ps arbitrary: tree r)
  case Nil
  then show ?case by simp
next
  case (Cons p ps)
  then show ?case
    by (auto split: option.splits sum.splits dest!: assms)
qed

lemmas tag_defs = tag_nil_def tag_null_def tag_cons_def tag_false_def tag_true_def
  tag_undefined_def

lemma bind_mono:
  assumes "(case m of None \<Rightarrow> None | Some (Inl e) \<Rightarrow> Some (Inl e) | Some (Inr x) \<Rightarrow> k x) = Some r"
    and "\<And>y. m = Some y \<Longrightarrow> m' = Some y"
    and "\<And>x. k x = Some r \<Longrightarrow> k' x = Some r"
  shows "(case m' of None \<Rightarrow> None | Some (Inl e) \<Rightarrow> Some (Inl e) | Some (Inr x) \<Rightarrow> k' x) = Some r"
  using assms by (cases m) (auto split: sum.splits)

lemma replay_tree_cons:
  "replay_tree (Suc f) T (tag_cons T # tree) actuals =
     (case replay_tree f T tree actuals of
        None \<Rightarrow> None
      | Some (Inl e) \<Rightarrow> Some (Inl e)
      | Some (Inr (elem, tree1)) \<Rightarrow>
          (case replay_tree f T tree1 actuals of
             None \<Rightarrow> None
           | Some (Inl e) \<Rightarrow> Some (Inl e)
           | Some (Inr (rest, tree2)) \<Rightarrow>
               (case rest of
                  VList xs \<Rightarrow> Some (Inr (VList (elem # xs), tree2))
                | _ \<Rightarrow> Some (Inl TypeError))))"
  by (simp add: tag_defs)



lemma replay_tree_meta:
  assumes "tag \<noteq> tag_nil T" "tag \<noteq> tag_null T" "tag \<noteq> tag_cons T" "tag \<noteq> tag_false T"
    "tag \<noteq> tag_true T" "tag \<noteq> tag_undefined T"
    "\<not> (0 \<le> tag \<and> tag < num_parameters T)"
    "first_meta_rule T \<le> tag \<and> tag \<le> last_meta_rule T"
  shows "replay_tree (Suc f) T (tag # tree) actuals =
     (case meta_rank T (tag - first_meta_rule T) of
        Inl e \<Rightarrow> Some (Inl e)
      | Inr k \<Rightarrow>
          (case replay_actuals f T (nat k) tree actuals of
             None \<Rightarrow> None
           | Some (Inl e) \<Rightarrow> Some (Inl e)
           | Some (Inr (rule_actuals, tree1)) \<Rightarrow>
               (case replay_tree f T (meta_rules T ! nat (tag - first_meta_rule T)) rule_actuals of
                  None \<Rightarrow> None
                | Some (Inl e) \<Rightarrow> Some (Inl e)
                | Some (Inr (v, unused)) \<Rightarrow> Some (Inr (v, tree1)))))"
  by (simp add: assms Let_def)

lemma replay_tree_kind:
  assumes "tag \<noteq> tag_nil T" "tag \<noteq> tag_null T" "tag \<noteq> tag_cons T" "tag \<noteq> tag_false T"
    "tag \<noteq> tag_true T" "tag \<noteq> tag_undefined T"
    "\<not> (0 \<le> tag \<and> tag < num_parameters T)"
    "\<not> (first_meta_rule T \<le> tag \<and> tag \<le> last_meta_rule T)"
    "first_grammar_rule T \<le> tag \<and> tag \<le> last_grammar_rule T"
  shows "replay_tree (Suc f) T (tag # tree) actuals =
     (case rules_get (dgrammar T) (nodeType (dgrammar T) (nat (tag - first_grammar_rule T))) of
        None \<Rightarrow> Some (Inl TypeError)
      | Some props \<Rightarrow>
          (case replay_props f T props tree actuals of
             None \<Rightarrow> None
           | Some (Inl e) \<Rightarrow> Some (Inl e)
           | Some (Inr (params, tree1)) \<Rightarrow>
               Some (Inr (new_S (nodeType (dgrammar T) (nat (tag - first_grammar_rule T))) params,
                          tree1))))"
  by (simp add: assms Let_def)

lemma replay_tree_leaf_fuel:
  assumes "tag \<noteq> tag_cons T"
    "tag = tag_nil T \<or> tag = tag_null T \<or> tag = tag_false T \<or> tag = tag_true T \<or>
     tag = tag_undefined T \<or> (0 \<le> tag \<and> tag < num_parameters T) \<or>
     (\<not> (first_meta_rule T \<le> tag \<and> tag \<le> last_meta_rule T) \<and>
      \<not> (first_grammar_rule T \<le> tag \<and> tag \<le> last_grammar_rule T))"
  shows "replay_tree (Suc f) T (tag # tree) actuals = replay_tree (Suc g) T (tag # tree) actuals"
  using assms(2)
  apply (elim disjE conjE)
  subgoal by simp
  subgoal by simp
  subgoal by (simp add: tag_defs)
  subgoal by (simp add: tag_defs)
  subgoal by (simp add: tag_defs)
  subgoal using assms(1) by simp
  subgoal premises prems by (simp add: prems assms(1))
  done


lemma replay_tree_fuel_Suc:
  "replay_tree f T tree actuals = Some r \<Longrightarrow> replay_tree (Suc f) T tree actuals = Some r"
proof (induction f arbitrary: tree actuals r)
  case 0
  then show ?case by simp
next
  case (Suc f)
  note t = Suc.IH
  have a: "replay_actuals (Suc f) T k tree actuals = Some r"
    if "replay_actuals f T k tree actuals = Some r" for k tree actuals r
    using that by (rule replay_actuals_fuel_step [rotated]) (rule Suc.IH)
  have p: "replay_props (Suc f) T ps tree actuals = Some r"
    if "replay_props f T ps tree actuals = Some r" for ps tree actuals r
    using that by (rule replay_props_fuel_step [rotated]) (rule Suc.IH)
  show ?case
  proof (cases tree)
    case Nil
    then show ?thesis using Suc.prems by simp
  next
    case (Cons tag rest)
    note prem = Suc.prems [unfolded Cons]
    let ?leaf = "tag = tag_nil T \<or> tag = tag_null T \<or> tag = tag_false T \<or> tag = tag_true T \<or>
     tag = tag_undefined T \<or> (0 \<le> tag \<and> tag < num_parameters T) \<or>
     (\<not> (first_meta_rule T \<le> tag \<and> tag \<le> last_meta_rule T) \<and>
      \<not> (first_grammar_rule T \<le> tag \<and> tag \<le> last_grammar_rule T))"
    show ?thesis
    proof (cases "tag = tag_cons T")
      case True
      show ?thesis
        unfolding Cons True replay_tree_cons
        apply (rule bind_mono [OF prem [unfolded True replay_tree_cons]])
         apply (erule t)
        apply (clarsimp)
        apply (erule bind_mono)
         apply (erule t)
        apply assumption
        done
    next
      case nc: False
      show ?thesis
      proof (cases ?leaf)
        case True
        from replay_tree_leaf_fuel [OF nc True, of "Suc f" rest actuals f] prem
        show ?thesis unfolding Cons by simp
      next
        case False
        then have n: "tag \<noteq> tag_nil T" "tag \<noteq> tag_null T" "tag \<noteq> tag_false T"
          "tag \<noteq> tag_true T" "tag \<noteq> tag_undefined T"
          "\<not> (0 \<le> tag \<and> tag < num_parameters T)"
          and mk: "(first_meta_rule T \<le> tag \<and> tag \<le> last_meta_rule T) \<or>
                   (first_grammar_rule T \<le> tag \<and> tag \<le> last_grammar_rule T)"
          by blast+
        show ?thesis
        proof (cases "first_meta_rule T \<le> tag \<and> tag \<le> last_meta_rule T")
          case True
          note eq = replay_tree_meta [OF n(1,2) nc n(3,4,5,6) True]
          show ?thesis
          proof (cases "meta_rank T (tag - first_meta_rule T)")
            case (Inl e)
            then show ?thesis using prem unfolding Cons eq by simp
          next
            case (Inr k)
            show ?thesis
              unfolding Cons eq Inr sum.case
              apply (rule bind_mono [OF prem [unfolded eq Inr sum.case]])
               apply (erule a)
              apply (clarsimp)
              apply (erule bind_mono)
               apply (erule t)
              apply assumption
              done
          qed
        next
          case nm: False
          with mk have g: "first_grammar_rule T \<le> tag \<and> tag \<le> last_grammar_rule T" by blast
          note eq = replay_tree_kind [OF n(1,2) nc n(3,4,5,6) nm g]
          show ?thesis
          proof (cases "rules_get (dgrammar T) (nodeType (dgrammar T) (nat (tag - first_grammar_rule T)))")
            case None
            then show ?thesis using prem unfolding Cons eq by simp
          next
            case (Some props)
            show ?thesis
              unfolding Cons eq Some option.case
              apply (rule bind_mono [OF prem [unfolded eq Some option.case]])
               apply (erule p)
              apply assumption
              done
          qed
        qed
      qed
    qed
  qed
qed

lemma replay_tree_fuel_mono:
  "replay_tree f T tree actuals = Some r \<Longrightarrow> f \<le> g \<Longrightarrow> replay_tree g T tree actuals = Some r"
proof (induction g)
  case 0
  then show ?case by simp
next
  case (Suc g)
  show ?case
  proof (cases "f = Suc g")
    case True
    then show ?thesis using Suc.prems by simp
  next
    case False
    then have "f \<le> g" using Suc.prems by simp
    then show ?thesis using Suc by (auto intro: replay_tree_fuel_Suc)
  qed
qed










section \<open>The decoder's header and root\<close>

text \<open>
  C8. Once the parameter count and the built-in count have been read,
  \<open>decodeAbstractSyntax\<close> fails for every built-in count other than 6: with the
  ``not yet implemented'' error below 6 and the ``decoder too old'' error above, so for
  7. With the count 6 it goes on to read the tables and the trees.
\<close>

theorem version_check:
  assumes "readVarUint bs = Inr (np, bs1)" "readVarUint bs1 = Inr (nb, bs2)"
  shows "(nb \<noteq> 6 \<longrightarrow>
           decodeAbstractSyntax h fuel g bs =
             Some (Inl (if nb < 6 then NotYetImplemented else DecoderTooOld nb))) \<and>
         (nb = 7 \<longrightarrow> decodeAbstractSyntax h fuel g bs = Some (Inl (DecoderTooOld 7))) \<and>
         (nb = 6 \<longrightarrow>
           decodeAbstractSyntax h fuel g bs =
             (case decode_tables h g np 6 bs2 of
                Inl e \<Rightarrow> Some (Inl e)
              | Inr (T, bs3) \<Rightarrow> decode_trees fuel T bs3))"
  using assms by (simp add: decodeAbstractSyntax_def)

lemma readVarUint_small:
  "readVarUint (0 # bs) = Inr (0, bs)" "readVarUint (1 # bs) = Inr (1, bs)"
  "readVarUint (6 # bs) = Inr (6, bs)" "readVarUint (7 # bs) = Inr (7, bs)"
  by (simp_all add: readVarUint_def)

lemma decode_tables_empty:
  "decode_tables h g 0 6 (0 # 0 # 0 # 0 # bs) =
     Inr (\<lparr>num_parameters = 0, num_built_in_tags = 6, ranks = [0], rank_offset = [0, 0],
           dgrammar = g, string_constants = [], numeric_constants = [], meta_rules = []\<rparr>, bs)"
  by (simp add: decode_tables_def readVarUint_small)


lemma tables_empty_tags:
  fixes g :: rules
  defines "T \<equiv> \<lparr>num_parameters = 0, num_built_in_tags = 6, ranks = [0], rank_offset = [0, 0],
           dgrammar = g, string_constants = [], numeric_constants = [], meta_rules = []\<rparr>"
  shows "tag_nil T = 0" "tag_null T = 1" "tag_cons T = 2"
    "tag_false T = 3" "tag_true T = 4" "tag_undefined T = 5"
    "num_parameters T = 0" "num_meta_rules T = 0"
    "first_meta_rule T = 6" "last_meta_rule T = 5"
    "first_grammar_rule T = 6" "last_grammar_rule T = 5 + int (length g)"
    "dgrammar T = g"
  by (simp_all add: T_def tag_defs first_built_in_tag_def first_meta_rule_def last_meta_rule_def
      first_grammar_rule_def last_grammar_rule_def num_meta_rules_def num_ranks_def
      num_grammar_rules_def)

lemma decode_trees_null:
  "decode_trees (Suc (Suc f))
     \<lparr>num_parameters = 0, num_built_in_tags = 6, ranks = [0], rank_offset = [0, 0],
      dgrammar = [], string_constants = [], numeric_constants = [], meta_rules = []\<rparr> [1]
   = Some (Inr VNull)"
  by (simp add: decode_trees_def tables_empty_tags readVarUint_small Let_def)

lemma decode_trees_script:
  "decode_trees (Suc (Suc f))
     \<lparr>num_parameters = 0, num_built_in_tags = 6, ranks = [0], rank_offset = [0, 0],
      dgrammar = [(''Script'', [])], string_constants = [], numeric_constants = [],
      meta_rules = []\<rparr> [6]
   = Some (Inr (VObj ''Script'' []))"
  by (simp add: decode_trees_def tables_empty_tags readVarUint_small Let_def nodeType_def
      rules_get_def new_S_def)

theorem version_check_witness:
  "readVarUint [0, 7] = Inr (0, [7]) \<and> readVarUint [7] = Inr (7, []) \<and>
   decodeAbstractSyntax ascii_host 2 [(''Script'', [])] [0, 7] = Some (Inl (DecoderTooOld 7)) \<and>
   readVarUint [0, 6, 0, 0, 0, 0, 6] = Inr (0, [6, 0, 0, 0, 0, 6]) \<and>
   readVarUint [6, 0, 0, 0, 0, 6] = Inr (6, [0, 0, 0, 0, 6]) \<and>
   decodeAbstractSyntax ascii_host 2 [(''Script'', [])] [0, 6, 0, 0, 0, 0, 6]
     = Some (Inr (VObj ''Script'' []))"
proof -
  have a: "readVarUint [0, 7] = Inr (0, [7])" "readVarUint [7] = Inr (7, [])"
    "readVarUint [0, 6, 0, 0, 0, 0, 6] = Inr (0, [6, 0, 0, 0, 0, 6])"
    "readVarUint [6, 0, 0, 0, 0, 6] = Inr (6, [0, 0, 0, 0, 6])"
    by (simp_all add: readVarUint_small)
  have two: "(2::nat) = Suc (Suc 0)" by simp
  from version_check [OF a(1,2), of ascii_host 2 "[(''Script'', [])]"]
  have b: "decodeAbstractSyntax ascii_host 2 [(''Script'', [])] [0, 7]
           = Some (Inl (DecoderTooOld 7))"
    by simp
  from version_check [OF a(3,4), of ascii_host 2 "[(''Script'', [])]"]
  have c: "decodeAbstractSyntax ascii_host 2 [(''Script'', [])] [0, 6, 0, 0, 0, 0, 6]
           = Some (Inr (VObj ''Script'' []))"
    unfolding two by (simp add: decode_tables_empty decode_trees_script)
  show ?thesis using a b c by blast
qed

lemma char_of_braces: "char_of (123::nat) = CHR ''{''" "char_of (125::nat) = CHR ''}''"
  by code_simp+

lemma ascii_decode_braces: "utf8_decode ascii_host [0x7b, 0x7d] = ''{}''"
  by (simp add: ascii_host_def char_of_braces)

lemma parse_rules_empty: "parse_rules ''{}'' = Some []"
  by (simp add: parse_rules_def parse_step_def)

text \<open>
  C5: the TreeRePair decoder returns whatever the start tree replays to. A stream with
  an empty grammar whose start tree is the single token \<open>null\<close> decodes to \<open>null\<close>
  without any failure.
\<close>

theorem decode_null_root:
  "decodeAbstractSyntax ascii_host 2 [] [0, 6, 0, 0, 0, 0, 1] = Some (Inr VNull) \<and>
   Decoder_decode ascii_host 2 [2, 0x7b, 0x7d, 0, 6, 0, 0, 0, 0, 1] = Some (Inr VNull)"
proof -
  have two: "(2::nat) = Suc (Suc 0)" by simp
  have a: "decodeAbstractSyntax ascii_host 2 [] [0, 6, 0, 0, 0, 0, 1] = Some (Inr VNull)"
    unfolding two
    by (simp add: decodeAbstractSyntax_def readVarUint_small decode_tables_empty
        decode_trees_null)
  have r: "readVarUint (2 # bs) = Inr (2, bs)" for bs
    by (simp add: readVarUint_def)
  have "decodeGrammar ascii_host [2, 0x7b, 0x7d, 0, 6, 0, 0, 0, 0, 1]
        = Inr ([], [0, 6, 0, 0, 0, 0, 1])"
    using ascii_decode_braces
    by (simp add: decodeGrammar_def r readUtf8Bytes_def readBytes_def parse_rules_empty
        ascii_host_def)
  then show ?thesis using a by (simp add: Decoder_decode_def)
qed

section \<open>The symbol code space\<close>













section \<open>A list of three statements, from the encoder to the decoder\<close>










section \<open>The bytes of an encoding\<close>

lemma writeUint8Array_contents:
  "stream_inv s \<Longrightarrow>
   stream_inv (snd (writeUint8Array bs s)) \<and>
   copyToWritable (snd (writeUint8Array bs s)) = copyToWritable s @ bs"
  using writeArray_loop_contents [of s "map uint bs"]
  by (simp add: writeUint8Array_def comp_def ToUint8_uint)

lemma run_wops_bytes:
  assumes "stream_inv s" "small_wops ws"
    "\<forall>w \<in> set ws. case w of WVarUint v \<Rightarrow> 0 \<le> v | _ \<Rightarrow> True"
  shows "\<exists>s'. run_wops h ws s = Some (Inr s') \<and> stream_inv s' \<and>
              copyToWritable s' = copyToWritable s @ concat (map (wop_bytes h) ws)"
  using assms
proof (induction ws arbitrary: s)
  case Nil
  then show ?case by simp
next
  case (Cons w ws)
  have sm: "small_wops ws" using Cons.prems(2) by (simp add: small_wops_def)
  have nn: "\<forall>w \<in> set ws. case w of WVarUint v \<Rightarrow> 0 \<le> v | _ \<Rightarrow> True"
    using Cons.prems(3) by simp
  show ?case
  proof (cases w)
    case (WVarUint v)
    then have v: "0 \<le> v" "v < 2 ^ 31" using Cons.prems(2,3) by (simp_all add: small_wops_def)
    from writeVarUint_groups [OF Cons.prems(1) v] obtain s1 where
      s1: "writeVarUint v s = Some (Inr (length (varuint_groups (nat v)), s1))"
      "stream_inv s1" "copyToWritable s1 = copyToWritable s @ varuint_groups (nat v)"
      by blast
    from Cons.IH [OF s1(2) sm nn] s1(1,3) show ?thesis unfolding WVarUint by auto
  next
    case (WUint8Array bs)
    from writeUint8Array_contents [OF Cons.prems(1), of bs]
    have s1: "stream_inv (snd (writeUint8Array bs s))"
      "copyToWritable (snd (writeUint8Array bs s)) = copyToWritable s @ bs" by simp_all
    from Cons.IH [OF s1(1) sm nn] s1(2) show ?thesis unfolding WUint8Array by auto
  next
    case (WFloat f)
    from writeFloat_contents [OF Cons.prems(1), of "nan_bits h" f] obtain s1 where
      s1: "writeFloat (nan_bits h) f s = Inr (8, s1)" "stream_inv s1"
      "copyToWritable s1 = copyToWritable s @ float_bytes (stored_bits (nan_bits h) f)"
      by blast
    from Cons.IH [OF s1(2) sm nn] s1(1,3) show ?thesis unfolding WFloat by auto
  qed
qed

lemma readVarUint_groups:
  assumes "v < 2 ^ 31"
  shows "readVarUint (varuint_groups v @ rest) = Inr (v, rest)"
proof -
  have "length (varuint_groups v) \<le> 5" using assms by (rule length_varuint_groups_le)
  then have "0 + length (varuint_groups v) \<le> 10" by simp
  then show ?thesis unfolding readVarUint_def by (simp add: readVarUint_loop_groups)
qed

section \<open>A script with the number negative zero\<close>

lemma neg_zero_encodeGrammar:
  "encodeGrammar ascii_host neg_zero_script
   = Inr (neg_zero_grammar, [WVarUint 112, WUint8Array neg_zero_grammar_bytes])"
  by code_simp

lemma neg_zero_build:
  "build (new_TreeRePairApplicator neg_zero_grammar) neg_zero_script
   = Inr (neg_zero_tree, neg_zero_applicator)"
  by code_simp

lemma neg_zero_encodeAbstractSyntax:
  "encodeAbstractSyntax ascii_host neg_zero_applicator (no_production neg_zero_tree)
   = Inr neg_zero_state"
  by code_simp

lemma neg_zero_wops:
  "small_wops ([WVarUint 112, WUint8Array neg_zero_grammar_bytes] @ written neg_zero_state)"
  "\<forall>w \<in> set ([WVarUint 112, WUint8Array neg_zero_grammar_bytes] @ written neg_zero_state).
     case w of WVarUint v \<Rightarrow> 0 \<le> v | _ \<Rightarrow> True"
  "concat (map (wop_bytes ascii_host)
     ([WVarUint 112, WUint8Array neg_zero_grammar_bytes] @ written neg_zero_state))
   = neg_zero_bytes"
  by code_simp+

lemma neg_zero_encode:
  "Encoder_encode ascii_host no_production neg_zero_script = Some (Inr neg_zero_bytes)"
proof -
  from run_wops_bytes [OF stream_inv_new neg_zero_wops(1,2), of ascii_host]
  obtain s where "run_wops ascii_host
      ([WVarUint 112, WUint8Array neg_zero_grammar_bytes] @ written neg_zero_state)
      new_FixedSizeBufStream = Some (Inr s)"
    and "copyToWritable s = neg_zero_bytes"
    unfolding neg_zero_wops(3) by (auto simp: copyToWritable_new)
  then show ?thesis
    unfolding Encoder_encode_def
    by (simp add: neg_zero_encodeGrammar neg_zero_build neg_zero_encodeAbstractSyntax
        del: run_wops.simps)
qed

lemma neg_zero_decodeGrammar:
  "decodeGrammar ascii_host neg_zero_bytes = Inr (neg_zero_grammar, neg_zero_syntax_bytes)"
  by code_simp

lemma neg_zero_decodeAbstractSyntax:
  "decodeAbstractSyntax ascii_host 10 neg_zero_grammar neg_zero_syntax_bytes
   = Some (Inr pos_zero_script)"
  by code_simp

lemma neg_zero_digrams: "distinct (digrams neg_zero_tree)"
  by code_simp

text \<open>
  C1. A script that holds the number \<open>-0\<close> is accepted by the encoder, and the decoder
  returns another script from its bytes: the applicator interns numbers in a \<open>Map\<close>,
  which keeps the key \<open>-0\<close> as \<open>+0\<close>, and it is the key that \<open>writeFloat\<close>
  receives. No digram occurs twice in the script's tree, so the TreeRePair engine makes
  no production.
\<close>

theorem encode_decode_neg_zero:
  "distinct (digrams neg_zero_tree) \<and>
   Encoder_encode ascii_host no_production neg_zero_script = Some (Inr neg_zero_bytes) \<and>
   Decoder_decode ascii_host 10 neg_zero_bytes = Some (Inr pos_zero_script) \<and>
   pos_zero_script \<noteq> neg_zero_script \<and>
   get_prop [(''value'', VNum (Num 0))] ''value'' \<noteq> get_prop [(''value'', VNum neg_zero)] ''value''"
proof -
  have d: "Decoder_decode ascii_host 10 neg_zero_bytes = Some (Inr pos_zero_script)"
    by (simp add: Decoder_decode_def neg_zero_decodeGrammar neg_zero_decodeAbstractSyntax)
  have n: "pos_zero_script \<noteq> neg_zero_script"
    by (simp add: pos_zero_script_def neg_zero_script_def neg_zero_def)
  have v: "get_prop [(''value'', VNum (Num 0))] ''value''
      \<noteq> get_prop [(''value'', VNum neg_zero)] ''value''"
    by (simp add: get_prop_def neg_zero_def)
  from neg_zero_digrams neg_zero_encode d n v show ?thesis by blast
qed

end
